theory Spec2Isabelle
  imports Complex_Main
begin

section \<open>JavaScript numbers\<close>

text \<open>
  Times, positions and durations are JavaScript numbers. The model keeps the three
  non-finite values, because the code compares and divides without guarding against
  them. A finite value is the real number the double stands for; the sign of zero is not
  modelled. The operations below are the exact ones; \<open>rounded\<close> rounds an exact result to
  the nearest double, as IEEE 754 does after every operation. \<open>formatTime\<close>, whose digits
  depend on the last bit of a product, rounds; the mapping of the Timeline is stated on
  exact quotients and products.
\<close>

datatype jsnum = NaN | NegInf | Fin real | PosInf

fun isNaN :: "jsnum \<Rightarrow> bool" where
  "isNaN NaN = True"
| "isNaN _ = False"

text \<open>\<open>a < b\<close>: false as soon as one side is NaN.\<close>

fun js_lt :: "jsnum \<Rightarrow> jsnum \<Rightarrow> bool" where
  "js_lt NaN _ = False"
| "js_lt _ NaN = False"
| "js_lt _ NegInf = False"
| "js_lt NegInf _ = True"
| "js_lt PosInf _ = False"
| "js_lt _ PosInf = True"
| "js_lt (Fin x) (Fin y) = (x < y)"

definition js_gt :: "jsnum \<Rightarrow> jsnum \<Rightarrow> bool" where
  "js_gt a b = js_lt b a"

text \<open>\<open>a >= b\<close>.\<close>

definition js_ge :: "jsnum \<Rightarrow> jsnum \<Rightarrow> bool" where
  "js_ge a b = (\<not> isNaN a \<and> \<not> isNaN b \<and> \<not> js_lt a b)"

definition js_le :: "jsnum \<Rightarrow> jsnum \<Rightarrow> bool" where
  "js_le a b = js_ge b a"

text \<open>\<open>a * b\<close>.\<close>

fun js_mul :: "jsnum \<Rightarrow> jsnum \<Rightarrow> jsnum" where
  "js_mul NaN _ = NaN"
| "js_mul _ NaN = NaN"
| "js_mul (Fin x) (Fin y) = Fin (x * y)"
| "js_mul (Fin x) PosInf = (if x = 0 then NaN else if 0 < x then PosInf else NegInf)"
| "js_mul (Fin x) NegInf = (if x = 0 then NaN else if 0 < x then NegInf else PosInf)"
| "js_mul PosInf (Fin y) = (if y = 0 then NaN else if 0 < y then PosInf else NegInf)"
| "js_mul NegInf (Fin y) = (if y = 0 then NaN else if 0 < y then NegInf else PosInf)"
| "js_mul PosInf PosInf = PosInf"
| "js_mul PosInf NegInf = NegInf"
| "js_mul NegInf PosInf = NegInf"
| "js_mul NegInf NegInf = PosInf"

text \<open>\<open>a / b\<close>: a finite number divided by zero is an infinity, or NaN for \<open>0 / 0\<close>.\<close>

fun js_div :: "jsnum \<Rightarrow> jsnum \<Rightarrow> jsnum" where
  "js_div NaN _ = NaN"
| "js_div _ NaN = NaN"
| "js_div (Fin x) (Fin y) =
     (if y = 0 then (if x = 0 then NaN else if 0 < x then PosInf else NegInf)
      else Fin (x / y))"
| "js_div (Fin x) PosInf = Fin 0"
| "js_div (Fin x) NegInf = Fin 0"
| "js_div PosInf (Fin y) = (if 0 \<le> y then PosInf else NegInf)"
| "js_div NegInf (Fin y) = (if 0 \<le> y then NegInf else PosInf)"
| "js_div _ _ = NaN"

definition trunc :: "real \<Rightarrow> int" where
  "trunc r = (if 0 \<le> r then \<lfloor>r\<rfloor> else \<lceil>r\<rceil>)"

text \<open>
  \<open>a % b\<close>: the remainder has the sign of the dividend. The remainder of two doubles is a
  double, so there is nothing to round.
\<close>

fun js_rem :: "jsnum \<Rightarrow> jsnum \<Rightarrow> jsnum" where
  "js_rem (Fin x) (Fin y) = (if y = 0 then NaN else Fin (x - y * of_int (trunc (x / y))))"
| "js_rem (Fin x) PosInf = Fin x"
| "js_rem (Fin x) NegInf = Fin x"
| "js_rem _ _ = NaN"

fun Math_floor :: "jsnum \<Rightarrow> jsnum" where
  "Math_floor (Fin x) = Fin (of_int \<lfloor>x\<rfloor>)"
| "Math_floor v = v"

text \<open>\<open>Math.min\<close> and \<open>Math.max\<close> of two arguments: NaN if either is NaN.\<close>

definition Math_min :: "jsnum \<Rightarrow> jsnum \<Rightarrow> jsnum" where
  "Math_min a b = (if isNaN a \<or> isNaN b then NaN else if js_lt b a then b else a)"

definition Math_max :: "jsnum \<Rightarrow> jsnum \<Rightarrow> jsnum" where
  "Math_max a b = (if isNaN a \<or> isNaN b then NaN else if js_lt a b then b else a)"

section \<open>Rounding to binary64\<close>

text \<open>
  The binade of \<open>x\<close>: the exponent \<open>e\<close> with \<open>2\<^sup>e \<le> |x| < 2\<^sup>e\<^sup>+\<^sup>1\<close>, searched downwards from the
  largest exponent of a double, 1023, to the exponent of the subnormal numbers, -1022.
\<close>

fun binade_from :: "nat \<Rightarrow> int \<Rightarrow> real \<Rightarrow> int" where
  "binade_from 0 e x = e"
| "binade_from (Suc n) e x = (if 2 powi e \<le> x then e else binade_from n (e - 1) x)"

definition binade :: "real \<Rightarrow> int" where
  "binade x = binade_from 2045 1023 \<bar>x\<bar>"

text \<open>The nearest integer, the even one of two that are equally near.\<close>

definition round_half_even :: "real \<Rightarrow> int" where
  "round_half_even q =
     (let f = \<lfloor>q\<rfloor>
      in if q - of_int f < 1 / 2 then f
         else if 1 / 2 < q - of_int f then f + 1
         else if even f then f else f + 1)"

text \<open>
  The nearest double: a multiple of \<open>2\<^sup>e\<^sup>-\<^sup>5\<^sup>2\<close> in the binade \<open>e\<close>, or an infinity if that
  multiple is \<open>2\<^sup>1\<^sup>0\<^sup>2\<^sup>4\<close> or beyond.
\<close>

definition round64 :: "real \<Rightarrow> jsnum" where
  "round64 x =
     (let u = 2 powi (binade x - 52);
          r = of_int (round_half_even (x / u)) * u
      in if (2::real) powi 1024 \<le> \<bar>r\<bar> then (if 0 < x then PosInf else NegInf) else Fin r)"

fun rounded :: "jsnum \<Rightarrow> jsnum" where
  "rounded (Fin x) = round64 x"
| "rounded v = v"


section \<open>formatTime\<close>

definition digit_char :: "nat \<Rightarrow> char" where
  "digit_char d = ''0123456789'' ! d"

fun decimal :: "nat \<Rightarrow> string" where
  "decimal n = (if n < 10 then [digit_char n] else decimal (n div 10) @ [digit_char (n mod 10)])"

declare decimal.simps [simp del]

text \<open>
  \<open>String(n)\<close> for the values \<open>Math.floor\<close> returns: an integer in decimal, or the name
  of a non-finite value. (From \<open>10^21\<close> on JavaScript switches to exponent notation,
  which is not modelled.)
\<close>

fun js_String :: "jsnum \<Rightarrow> string" where
  "js_String NaN = ''NaN''"
| "js_String PosInf = ''Infinity''"
| "js_String NegInf = ''-Infinity''"
| "js_String (Fin x) =
     (if x < 0 then CHR ''-'' # decimal (nat (- \<lfloor>x\<rfloor>)) else decimal (nat \<lfloor>x\<rfloor>))"

text \<open>\<open>s.padStart(n, '0')\<close>: a string of \<open>n\<close> characters or more is returned as it is.\<close>

definition padStart :: "nat \<Rightarrow> char \<Rightarrow> string \<Rightarrow> string" where
  "padStart n c s = replicate (n - length s) c @ s"

definition formatTime :: "jsnum \<Rightarrow> string" where
  "formatTime timeInSeconds =
     (if isNaN timeInSeconds \<or> js_lt timeInSeconds (Fin 0) then ''00:00.00''
      else
        let minutes = Math_floor (rounded (js_div timeInSeconds (Fin 60)));
            seconds = Math_floor (js_rem timeInSeconds (Fin 60));
            centiseconds =
              Math_floor (js_rem (rounded (js_mul timeInSeconds (Fin 100))) (Fin 100));
            formattedMinutes = padStart 2 (CHR ''0'') (js_String minutes);
            formattedSeconds = padStart 2 (CHR ''0'') (js_String seconds);
            formattedCentiseconds = padStart 2 (CHR ''0'') (js_String centiseconds)
        in formattedMinutes @ '':'' @ formattedSeconds @ ''.'' @ formattedCentiseconds)"

section \<open>Timeline: pointer position to time\<close>

text \<open>
  The bounding rectangle of the track, \<open>None\<close> while \<open>timelineRef.current\<close> is null.
  Only \<open>left\<close> and \<open>width\<close> are read.
\<close>

record rect =
  left :: real
  width :: real

definition getSeekTime :: "rect option \<Rightarrow> jsnum \<Rightarrow> real \<Rightarrow> jsnum" where
  "getSeekTime timelineRef duration clientX =
     (case timelineRef of
        None \<Rightarrow> Fin 0
      | Some r \<Rightarrow>
          if duration = Fin 0 then Fin 0
          else
            let x = Fin (clientX - left r);
                w = Fin (width r);
                percentage = Math_max (Fin 0) (Math_min (Fin 1) (js_div x w))
            in js_mul percentage duration)"

section \<open>The video element\<close>

text \<open>
  The \<open>HTMLVideoElement\<close> behind \<open>videoRef\<close> is the playback engine. The model keeps
  what the code reads and writes: the playback position, the duration (NaN until the
  metadata is known) and the paused flag. \<open>v_seeks\<close> is a log of the values the code
  has assigned to \<open>video.currentTime\<close>, oldest first and whether the element took them
  or not, so that a theorem can count the seek commands issued.
\<close>

text \<open>A statement either returns or throws; both leave a state behind.\<close>

datatype 'a outcome = Returned 'a | Threw 'a

fun state_of :: "'a outcome \<Rightarrow> 'a" where
  "state_of (Returned x) = x"
| "state_of (Threw x) = x"

record video =
  v_currentTime :: jsnum
  v_duration :: jsnum
  v_paused :: bool
  v_seeks :: "jsnum list"

definition new_source :: "video \<Rightarrow> video" where
  \<comment> \<open>\<open>video.src = videoUrl\<close>: the element starts loading another resource.\<close>
  "new_source v = v\<lparr>v_currentTime := Fin 0, v_duration := NaN, v_paused := True\<rparr>"

text \<open>
  \<open>video.currentTime = t\<close>. The attribute is a (restricted) double: assigning NaN or
  an infinity throws a TypeError and the element stays where it is. Otherwise the
  element moves to \<open>t\<close>, brought into the range of the resource when the duration is
  known; the new position is what \<open>video.currentTime\<close> returns from then on.
\<close>

definition set_currentTime :: "jsnum \<Rightarrow> video \<Rightarrow> video outcome" where
  "set_currentTime t v =
     (case t of
        Fin x \<Rightarrow>
          Returned (v\<lparr>v_currentTime :=
                         (case v_duration v of
                            Fin d \<Rightarrow> Fin (max 0 (min d x))
                          | _ \<Rightarrow> Fin (max 0 x)),
                       v_seeks := v_seeks v @ [t]\<rparr>)
      | _ \<Rightarrow> Threw (v\<lparr>v_seeks := v_seeks v @ [t]\<rparr>))"

text \<open>
  Playback between two notifications: an element that is not paused has played \<open>d\<close>
  seconds of media and stops at the end of the resource.
\<close>

definition played :: "real \<Rightarrow> video \<Rightarrow> video" where
  "played d v =
     (if v_paused v then v
      else case v_currentTime v of
             Fin c \<Rightarrow>
               v\<lparr>v_currentTime :=
                    (case v_duration v of Fin e \<Rightarrow> Fin (min e (c + d)) | _ \<Rightarrow> Fin (c + d))\<rparr>
           | _ \<Rightarrow> v)"

section \<open>VideoPlayer\<close>

text \<open>A string of UTF-16 code units, as \<open>trim\<close> sees it.\<close>

type_synonym utf16 = "nat list"

definition ascii :: "string \<Rightarrow> utf16" where
  "ascii s = map of_char s"

text \<open>A step as exported and imported, \<open>Omit<Step, 'id'>\<close>, and a step of the list.\<close>

record step_data =
  step_name :: utf16
  step_start :: jsnum
  step_end :: jsnum

record step = step_data +
  step_id :: string

text \<open>
  The state of one mounted \<open>VideoPlayer\<close>: its \<open>useState\<close> cells, the three cells of the
  \<open>Timeline\<close> it renders, and the video element of \<open>videoRef\<close>. The element is
  rendered with the component, so \<open>videoRef.current\<close> is never null in a handler and the
  guards on it always pass. The playback rate and the export of the steps, which no
  property below depends on, are left out.
\<close>

record player =
  video :: video
  isPlaying :: bool
  currentTime :: jsnum
  duration :: jsnum
  isLooping :: bool
  loopStart :: jsnum
  loopEnd :: jsnum
  steps :: "step list"
  activeStepId :: "string option"
  isDraggingPlayhead :: bool
  isDraggingStart :: bool
  isDraggingEnd :: bool

definition initial_player :: player where
  "initial_player =
     \<lparr>video = \<lparr>v_currentTime = Fin 0, v_duration = NaN, v_paused = True, v_seeks = []\<rparr>,
      isPlaying = False, currentTime = Fin 0, duration = Fin 0, isLooping = False,
      loopStart = Fin 0, loopEnd = Fin 0, steps = [], activeStepId = None,
      isDraggingPlayhead = False, isDraggingStart = False, isDraggingEnd = False\<rparr>"

text \<open>The effect on \<open>[videoUrl]\<close>: "Reset state when video changes".\<close>

definition videoUrlEffect :: "player \<Rightarrow> player" where
  "videoUrlEffect s =
     s\<lparr>video := new_source (video s), loopStart := Fin 0, loopEnd := Fin 0,
       currentTime := Fin 0, isPlaying := False\<rparr>"

definition handleLoadedMetadata :: "player \<Rightarrow> player" where
  "handleLoadedMetadata s =
     s\<lparr>duration := v_duration (video s), loopEnd := v_duration (video s)\<rparr>"

definition handleTimeUpdate :: "player \<Rightarrow> player" where
  "handleTimeUpdate s =
     (let current = v_currentTime (video s);
          s1 = s\<lparr>currentTime := current\<rparr>
      in if isLooping s \<and> js_ge current (loopEnd s)
         then s1\<lparr>video := state_of (set_currentTime (loopStart s) (video s))\<rparr>
         else s1)"

text \<open>The effect on \<open>[loopStart, loopEnd, activeStepId]\<close>: "Sync active step with loop points".\<close>

definition syncActiveStep :: "player \<Rightarrow> player" where
  "syncActiveStep s =
     (case activeStepId s of
        None \<Rightarrow> s
      | Some a \<Rightarrow>
          s\<lparr>steps := map (\<lambda>st. if step_id st = a
                                then st\<lparr>step_start := loopStart s, step_end := loopEnd s\<rparr>
                                else st) (steps s)\<rparr>)"

definition togglePlayPause :: "player \<Rightarrow> player" where
  "togglePlayPause s =
     (if v_paused (video s)
      then s\<lparr>video := (video s)\<lparr>v_paused := False\<rparr>, isPlaying := True\<rparr>
      else s\<lparr>video := (video s)\<lparr>v_paused := True\<rparr>, isPlaying := False\<rparr>)"

text \<open>If the assignment throws, \<open>setCurrentTime\<close> is not reached.\<close>

definition handleSeek :: "jsnum \<Rightarrow> player \<Rightarrow> player outcome" where
  "handleSeek t s =
     (case set_currentTime t (video s) of
        Threw v \<Rightarrow> Threw (s\<lparr>video := v\<rparr>)
      | Returned v \<Rightarrow> Returned (s\<lparr>video := v, currentTime := t\<rparr>))"

definition handleSetLoopStart :: "player \<Rightarrow> player" where
  "handleSetLoopStart s =
     (let t = v_currentTime (video s)
      in if js_lt t (loopEnd s) then s\<lparr>loopStart := t\<rparr> else s)"

definition handleSetLoopEnd :: "player \<Rightarrow> player" where
  "handleSetLoopEnd s =
     (let t = v_currentTime (video s)
      in if js_gt t (loopStart s) then s\<lparr>loopEnd := t\<rparr> else s)"

definition handleReset :: "player \<Rightarrow> player" where
  "handleReset s = s\<lparr>video := state_of (set_currentTime (loopStart s) (video s))\<rparr>"

text \<open>\<open>now\<close> is what \<open>new Date().toISOString()\<close> returns when the handler runs.\<close>

definition handleAddStep :: "string \<Rightarrow> player \<Rightarrow> player" where
  "handleAddStep now s =
     (let newStep = \<lparr>step_name = ascii ''Step '' @ ascii (decimal (length (steps s) + 1)),
                      step_start = loopStart s, step_end = loopEnd s, step_id = now\<rparr>
      in s\<lparr>steps := steps s @ [newStep]\<rparr>)"

definition handlePlayStep :: "step \<Rightarrow> player \<Rightarrow> player" where
  "handlePlayStep st s =
     (let s1 = s\<lparr>activeStepId := Some (step_id st), loopStart := step_start st,
                 loopEnd := step_end st, isLooping := True\<rparr>
      in case handleSeek (step_start st) s1 of
           Threw s2 \<Rightarrow> s2
         | Returned s2 \<Rightarrow> if v_paused (video s2) then togglePlayPause s2 else s2)"

definition handleDeleteStep :: "string \<Rightarrow> player \<Rightarrow> player" where
  "handleDeleteStep i s =
     (let s1 = s\<lparr>steps := filter (\<lambda>st. step_id st \<noteq> i) (steps s)\<rparr>
      in if activeStepId s = Some i then s1\<lparr>activeStepId := None, isLooping := False\<rparr> else s1)"

definition handleUpdateStepName :: "string \<Rightarrow> utf16 \<Rightarrow> player \<Rightarrow> player" where
  "handleUpdateStepName i n s =
     s\<lparr>steps := map (\<lambda>st. if step_id st = i then st\<lparr>step_name := n\<rparr> else st) (steps s)\<rparr>"

text \<open>\<open>clock k\<close> is what \<open>new Date().toISOString()\<close> returns for the element at index \<open>k\<close>.\<close>

definition handleLoadSteps :: "(nat \<Rightarrow> string) \<Rightarrow> step_data list \<Rightarrow> player \<Rightarrow> player" where
  "handleLoadSteps clock importedSteps s =
     s\<lparr>steps := map (\<lambda>(index, d).
                      \<lparr>step_name = step_name d, step_start = step_start d, step_end = step_end d,
                       step_id = clock index @ ''-'' @ decimal index\<rparr>)
                    (enumerate 0 importedSteps)\<rparr>"

section \<open>Timeline: the three handles\<close>

definition handleTimelineClick :: "rect option \<Rightarrow> real \<Rightarrow> player \<Rightarrow> player" where
  "handleTimelineClick r clientX s =
     (let time = getSeekTime r (duration s) clientX
      in state_of (handleSeek time s))"

definition handleMouseMove :: "rect option \<Rightarrow> real \<Rightarrow> player \<Rightarrow> player" where
  "handleMouseMove r clientX s =
     (if isDraggingPlayhead s then
        (let time = getSeekTime r (duration s) clientX
         in state_of (handleSeek time s))
      else if isDraggingStart s then
        (let time = getSeekTime r (duration s) clientX
         in if js_lt time (loopEnd s) then s\<lparr>loopStart := time\<rparr> else s)
      else if isDraggingEnd s then
        (let time = getSeekTime r (duration s) clientX
         in if js_gt time (loopStart s) then s\<lparr>loopEnd := time\<rparr> else s)
      else s)"

definition handleMouseUp :: "player \<Rightarrow> player" where
  "handleMouseUp s =
     s\<lparr>isDraggingPlayhead := False, isDraggingStart := False, isDraggingEnd := False\<rparr>"

section \<open>StepsSidebar: renaming a step\<close>

text \<open>The code units \<open>String.prototype.trim\<close> removes: WhiteSpace and LineTerminator.\<close>

definition is_whitespace :: "nat \<Rightarrow> bool" where
  "is_whitespace c =
     (c \<in> {0x9, 0xA, 0xB, 0xC, 0xD, 0x20, 0xA0, 0x1680, 0x2028, 0x2029, 0x202F, 0x205F,
            0x3000, 0xFEFF}
      \<or> (0x2000 \<le> c \<and> c \<le> 0x200A))"

definition trim :: "utf16 \<Rightarrow> utf16" where
  "trim s = rev (dropWhile is_whitespace (rev (dropWhile is_whitespace s)))"

text \<open>
  \<open>handleNameBlur\<close> of the \<open>StepItem\<close> rendering \<open>st\<close>, whose input holds \<open>name\<close>. It
  returns the name the input shows afterwards and the player state; \<open>onUpdateName\<close> is
  \<open>handleUpdateStepName\<close> at the step's id.
\<close>

definition handleNameBlur :: "step \<Rightarrow> utf16 \<Rightarrow> player \<Rightarrow> utf16 \<times> player" where
  "handleNameBlur st name s =
     (if trim name = [] then (step_name st, s)
      else (name, handleUpdateStepName (step_id st) name s))"

section \<open>Events of a mounted player\<close>

text \<open>
  One constructor for each event the component listens to. A step button is addressed by
  the position of its \<open>StepItem\<close> in the rendered list. \<open>TimeUpdate d\<close> is a
  \<open>timeupdate\<close> notification after another \<open>d\<close> seconds of playback; the handler reads
  the position from the element. \<open>LoadedMetadata d\<close> is the notification that the
  metadata of a resource of duration \<open>d\<close> is known.
\<close>

datatype event =
    LoadedMetadata jsnum
  | TimeUpdate real
  | ClickPlayPause
  | ClickReset
  | ClickToggleLoop
  | ClickSetStart
  | ClickSetEnd
  | ClickAddStep string
  | ClickPlayStep nat
  | ClickDeleteStep nat
  | NameBlur nat utf16
  | LoadSteps "nat \<Rightarrow> string" "step_data list"
  | MouseDownPlayhead
  | MouseDownStart
  | MouseDownEnd
  | MouseMove "rect option" real
  | MouseUp
  | TimelineClick "rect option" real

fun handler :: "event \<Rightarrow> player \<Rightarrow> player" where
  "handler (LoadedMetadata d) s = handleLoadedMetadata (s\<lparr>video := (video s)\<lparr>v_duration := d\<rparr>\<rparr>)"
| "handler (TimeUpdate d) s = handleTimeUpdate (s\<lparr>video := played d (video s)\<rparr>)"
| "handler ClickPlayPause s = togglePlayPause s"
| "handler ClickReset s = handleReset s"
| "handler ClickToggleLoop s = s\<lparr>isLooping := \<not> isLooping s\<rparr>"
| "handler ClickSetStart s = handleSetLoopStart s"
| "handler ClickSetEnd s = handleSetLoopEnd s"
| "handler (ClickAddStep now) s = handleAddStep now s"
| "handler (ClickPlayStep k) s =
     (if k < length (steps s) then handlePlayStep (steps s ! k) s else s)"
| "handler (ClickDeleteStep k) s =
     (if k < length (steps s) then handleDeleteStep (step_id (steps s ! k)) s else s)"
| "handler (NameBlur k name) s =
     (if k < length (steps s) then snd (handleNameBlur (steps s ! k) name s) else s)"
| "handler (LoadSteps clock importedSteps) s = handleLoadSteps clock importedSteps s"
| "handler MouseDownPlayhead s = s\<lparr>isDraggingPlayhead := True\<rparr>"
| "handler MouseDownStart s = s\<lparr>isDraggingStart := True\<rparr>"
| "handler MouseDownEnd s = s\<lparr>isDraggingEnd := True\<rparr>"
| "handler (MouseMove r clientX) s = handleMouseMove r clientX s"
| "handler MouseUp s = handleMouseUp s"
| "handler (TimelineClick r clientX) s = handleTimelineClick r clientX s"

text \<open>
  After the render that follows a handler, React runs the effects whose dependencies
  changed: here the one on \<open>[loopStart, loopEnd, activeStepId]\<close>.
\<close>

definition runEffects :: "player \<Rightarrow> player \<Rightarrow> player" where
  "runEffects s s' =
     (if loopStart s' \<noteq> loopStart s \<or> loopEnd s' \<noteq> loopEnd s \<or> activeStepId s' \<noteq> activeStepId s
      then syncActiveStep s' else s')"

definition dispatch :: "event \<Rightarrow> player \<Rightarrow> player" where
  "dispatch e s = runEffects s (handler e s)"

fun run :: "event list \<Rightarrow> player \<Rightarrow> player" where
  "run [] s = s"
| "run (e # es) s = run es (dispatch e s)"

text \<open>Mounting runs every effect once, on the initial state.\<close>

definition mountPlayer :: player where
  "mountPlayer = syncActiveStep (videoUrlEffect initial_player)"

section \<open>App\<close>

text \<open>
  \<open>App\<close> renders a \<open>VideoPlayer\<close> exactly while both \<open>videoUrl\<close> and \<open>videoFile\<close> are set,
  and the upload box with its file input otherwise. \<open>mounted\<close> is the state of the
  rendered player, if any.
\<close>

record app =
  videoUrl :: "string option"
  videoFile :: "string option"
  mounted :: "player option"

definition initial_app :: app where
  "initial_app = \<lparr>videoUrl = None, videoFile = None, mounted = None\<rparr>"

text \<open>
  The render after \<open>App\<close>'s state changed: a player that was not there is mounted, one
  that stays gets the new \<open>videoUrl\<close> prop and runs its effect if the prop changed, one
  that is no longer rendered is unmounted and its state is lost.
\<close>

definition render :: "string option \<Rightarrow> app \<Rightarrow> app" where
  "render oldUrl a =
     (case (videoUrl a, videoFile a) of
        (Some u, Some f) \<Rightarrow>
          (case mounted a of
             None \<Rightarrow> a\<lparr>mounted := Some mountPlayer\<rparr>
           | Some p \<Rightarrow>
               if oldUrl \<noteq> Some u then a\<lparr>mounted := Some (runEffects p (videoUrlEffect p))\<rparr>
               else a)
      | _ \<Rightarrow> a\<lparr>mounted := None\<rparr>)"

text \<open>\<open>file\<close>: the name of the selected file and the object URL created for it.\<close>

definition handleFileChange :: "(string \<times> string) option \<Rightarrow> app \<Rightarrow> app" where
  "handleFileChange file a =
     (case file of
        None \<Rightarrow> a
      | Some (fname, url) \<Rightarrow> render (videoUrl a) (a\<lparr>videoFile := Some fname, videoUrl := Some url\<rparr>))"

definition handleNewVideo :: "app \<Rightarrow> app" where
  "handleNewVideo a = render (videoUrl a) (a\<lparr>videoUrl := None, videoFile := None\<rparr>)"

text \<open>
  The file input exists only in the upload box, the "New Video" button and the
  player's controls only in a rendered player.
\<close>

datatype app_event = SelectFile "(string \<times> string) option" | ClickNewVideo | PlayerEvent event

fun app_step :: "app_event \<Rightarrow> app \<Rightarrow> app" where
  "app_step (SelectFile file) a =
     (case mounted a of None \<Rightarrow> handleFileChange file a | Some p \<Rightarrow> a)"
| "app_step ClickNewVideo a =
     (case mounted a of None \<Rightarrow> a | Some p \<Rightarrow> handleNewVideo a)"
| "app_step (PlayerEvent e) a =
     (case mounted a of None \<Rightarrow> a | Some p \<Rightarrow> a\<lparr>mounted := Some (dispatch e p)\<rparr>)"

fun app_run :: "app_event list \<Rightarrow> app \<Rightarrow> app" where
  "app_run [] a = a"
| "app_run (e # es) a = app_run es (app_step e a)"

section \<open>Vocabulary of the properties\<close>




definition clamp01 :: "real \<Rightarrow> real" where
  "clamp01 f = max 0 (min 1 f)"

text \<open>The loop range invariant \<open>0 \<le> loopStart < loopEnd \<le> duration\<close>.\<close>

definition range_ok :: "player \<Rightarrow> bool" where
  "range_ok s =
     (js_le (Fin 0) (loopStart s) \<and> js_lt (loopStart s) (loopEnd s) \<and> js_le (loopEnd s) (duration s))"

text \<open>The same for the range stored in a step, against a duration \<open>d\<close>.\<close>

definition stored_ok :: "jsnum \<Rightarrow> 'a step_data_scheme \<Rightarrow> bool" where
  "stored_ok d st =
     (js_le (Fin 0) (step_start st) \<and> js_lt (step_start st) (step_end st) \<and> js_le (step_end st) d)"

text \<open>A playback position within a resource of duration \<open>dur\<close>.\<close>

definition pos_ok :: "jsnum \<Rightarrow> jsnum \<Rightarrow> bool" where
  "pos_ok dur p = (js_le (Fin 0) p \<and> js_le p dur)"

text \<open>
  What holds of a player once the metadata has arrived: the range invariant, the
  element's duration is the one in the state, the playback position lies within the
  resource, and every stored range is a valid one.
\<close>

definition player_inv :: "player \<Rightarrow> bool" where
  "player_inv s =
     (range_ok s \<and> v_duration (video s) = duration s
      \<and> js_le (Fin 0) (v_currentTime (video s)) \<and> js_le (v_currentTime (video s)) (duration s)
      \<and> list_all (stored_ok (duration s)) (steps s))"

text \<open>
  The events of a session on one loaded source of duration \<open>d\<close>: no second metadata
  notification, playback does not run backwards, and imported ranges are valid ones.
\<close>

fun event_ok :: "jsnum \<Rightarrow> event \<Rightarrow> bool" where
  "event_ok d (LoadedMetadata e) = False"
| "event_ok d (TimeUpdate t) = (0 \<le> t)"
| "event_ok d (LoadSteps clock importedSteps) = list_all (stored_ok d) importedSteps"
| "event_ok d e = True"

text \<open>
  A stream of position updates \<open>p\<^sub>0, p\<^sub>1, \<dots>\<close>, as the engine would report them if nobody
  moved the playhead: the element is at \<open>p\<^sub>0\<close> at the first notification and has played
  \<open>p\<^sub>i\<^sub>+\<^sub>1 - p\<^sub>i\<close> seconds between two notifications.
\<close>

fun advances :: "real list \<Rightarrow> real list" where
  "advances (p # q # ps) = (q - p) # advances (q # ps)"
| "advances ps = []"

definition position_updates :: "real list \<Rightarrow> event list" where
  "position_updates ps = (case ps of [] \<Rightarrow> [] | p # qs \<Rightarrow> map TimeUpdate (0 # advances ps))"

text \<open>A player looping over \<open>[5, 10]\<close> of a resource of 20 seconds, playing, at position 5.\<close>

definition looping_5_10 :: player where
  "looping_5_10 =
     mountPlayer\<lparr>video := \<lparr>v_currentTime = Fin 5, v_duration = Fin 20, v_paused = False,
                            v_seeks = []\<rparr>,
                 isPlaying := True, currentTime := Fin 5, duration := Fin 20, isLooping := True,
                 loopStart := Fin 5, loopEnd := Fin 10\<rparr>"

text \<open>Reading a decimal numeral back.\<close>

definition digit_val :: "char \<Rightarrow> nat" where
  "digit_val c = of_char c - 48"

definition read_decimal :: "string \<Rightarrow> nat" where
  "read_decimal s = foldl (\<lambda>a c. 10 * a + digit_val c) 0 s"

text \<open>A clock that does not advance during an import.\<close>

definition fixed_clock :: "nat \<Rightarrow> string" where
  "fixed_clock k = ''t''"

text \<open>
  A session on a resource of 10 seconds with two imported steps, A over \<open>[2, 4]\<close> and B
  over \<open>[3, 5]\<close>: A is played and the end handle dragged to 6 on a track of 100 pixels;
  then B is played and the end handle dragged to 8.
\<close>

definition step_A :: step_data where
  "step_A = \<lparr>step_name = ascii ''A'', step_start = Fin 2, step_end = Fin 4\<rparr>"

definition step_B :: step_data where
  "step_B = \<lparr>step_name = ascii ''B'', step_start = Fin 3, step_end = Fin 5\<rparr>"

definition track :: "rect option" where
  "track = Some \<lparr>left = 0, width = 100\<rparr>"

definition play_A_drag_end_to_6 :: "event list" where
  "play_A_drag_end_to_6 =
     [LoadedMetadata (Fin 10), LoadSteps fixed_clock [step_A, step_B], ClickPlayStep 0,
      MouseDownEnd, MouseMove track 60, MouseUp]"

definition play_B_drag_end_to_8 :: "event list" where
  "play_B_drag_end_to_8 = [ClickPlayStep 1, MouseDownEnd, MouseMove track 80, MouseUp]"

definition stored_ranges :: "player \<Rightarrow> (string \<times> jsnum \<times> jsnum) list" where
  "stored_ranges s = map (\<lambda>st. (step_id st, step_start st, step_end st)) (steps s)"

text \<open>
  A session in which "Add Step" is handled twice while the clock shows the same
  millisecond, after the metadata of a resource of 10 seconds has arrived.
\<close>

definition add_twice_same_timestamp :: "event list" where
  "add_twice_same_timestamp =
     [LoadedMetadata (Fin 10), ClickAddStep ''2026-01-01T00:00:00.000Z'',
      ClickAddStep ''2026-01-01T00:00:00.000Z'']"

text \<open>The events whose handlers call \<open>setSteps\<close> themselves.\<close>

fun edits_step_list :: "event \<Rightarrow> bool" where
  "edits_step_list (ClickAddStep now) = True"
| "edits_step_list (ClickDeleteStep k) = True"
| "edits_step_list (NameBlur k name) = True"
| "edits_step_list (LoadSteps clock importedSteps) = True"
| "edits_step_list e = False"

section \<open>formatTime: the rendered fields\<close>







section \<open>Rounding to binary64: the binade and two bounds\<close>

lemma powi2_less_imp:
  assumes "(2::real) powi a < 2 powi b"
  shows "a < b"
proof (rule ccontr)
  assume "\<not> a < b"
  then have "(2::real) powi b \<le> 2 powi a" by (intro power_int_increasing) simp_all
  then show False using assms by simp
qed

lemma binade_from_eq:
  assumes "e \<le> E" "E - int n \<le> e" "2 powi e \<le> x" "x < 2 powi (e + 1)"
  shows "binade_from n E x = e"
  using assms
proof (induction n arbitrary: E)
  case 0
  then show ?case by simp
next
  case (Suc n)
  show ?case
  proof (cases "2 powi E \<le> x")
    case True
    then have "(2::real) powi E < 2 powi (e + 1)" using Suc.prems(4) by simp
    then have "E < e + 1" by (rule powi2_less_imp)
    then have "E = e" using Suc.prems(1) by simp
    then show ?thesis using True by simp
  next
    case False
    then have "(2::real) powi e < 2 powi E" using Suc.prems(3) by simp
    then have "e < E" by (rule powi2_less_imp)
    then have "binade_from n (E - 1) x = e"
      using Suc.prems by (intro Suc.IH) simp_all
    then show ?thesis using False by simp
  qed
qed

lemma binade_eq:
  assumes "- 1022 \<le> e" "e \<le> 1023" "2 powi e \<le> \<bar>x\<bar>" "\<bar>x\<bar> < 2 powi (e + 1)"
  shows "binade x = e"
  unfolding binade_def using assms by (intro binade_from_eq) simp_all


lemma round_half_even_of_int: "round_half_even (of_int k) = k"
  by (simp add: round_half_even_def)



lemma round64_eval:
  assumes "- 1022 \<le> e" "e \<le> 1023" "2 powi e \<le> \<bar>x\<bar>" "\<bar>x\<bar> < 2 powi (e + 1)"
  shows "round64 x =
           (if (2::real) powi 1024 \<le> \<bar>of_int (round_half_even (x / 2 powi (e - 52))) * 2 powi (e - 52)\<bar>
            then (if 0 < x then PosInf else NegInf)
            else Fin (of_int (round_half_even (x / 2 powi (e - 52))) * 2 powi (e - 52)))"
  by (simp add: round64_def Let_def binade_eq [OF assms])







section \<open>formatTime: the shape of the result\<close>








lemma formatTime_0_29: "formatTime (round64 0.29) = ''00:00.28''"
proof -
  have d: "round64 0.29 = Fin (5224175567749775 / 2 ^ 54)"
    using round64_eval [of "- 2" "0.29"] by (simp add: round_half_even_def)
  have m: "round64 (5224175567749775 / 2 ^ 54 / 60) = Fin (5572453938933093 / 2 ^ 60)"
    using round64_eval [of "- 8" "5224175567749775 / 2 ^ 54 / 60"]
    by (simp add: round_half_even_def)
  have c: "round64 (5224175567749775 / 2 ^ 54 * 100) = Fin (8162774324609023 / 2 ^ 48)"
    using round64_eval [of 4 "5224175567749775 / 2 ^ 54 * 100"]
    by (simp add: round_half_even_def)
  show ?thesis
    unfolding d using m c
    by (simp add: formatTime_def trunc_def padStart_def decimal.simps digit_char_def Let_def)
qed





section \<open>getSeekTime\<close>

lemma percentage_pos_width:
  assumes "0 < w"
  shows "Math_max (Fin 0) (Math_min (Fin 1) (js_div (Fin x) (Fin w))) = Fin (clamp01 (x / w))"
  using assms by (simp add: Math_max_def Math_min_def clamp01_def max_def min_def)

lemma getSeekTime_range:
  assumes "js_lt (Fin 0) dur"
  shows "isNaN (getSeekTime r dur x)
         \<or> (js_le (Fin 0) (getSeekTime r dur x) \<and> js_le (getSeekTime r dur x) dur)"
proof (cases r)
  case None
  then show ?thesis using assms by (cases dur) (auto simp: getSeekTime_def js_le_def js_ge_def)
next
  case (Some rc)
  define q where "q = js_div (Fin (x - left rc)) (Fin (width rc))"
  define p where "p = Math_max (Fin 0) (Math_min (Fin 1) q)"
  have p: "p = NaN \<or> (\<exists>f. p = Fin f \<and> 0 \<le> f \<and> f \<le> 1)"
    unfolding p_def by (cases q) (auto simp: Math_max_def Math_min_def)
  have g: "getSeekTime r dur x = (if dur = Fin 0 then Fin 0 else js_mul p dur)"
    by (simp add: Some getSeekTime_def Let_def p_def q_def)
  from p show ?thesis
  proof
    assume "p = NaN"
    then show ?thesis using assms g by (cases dur) auto
  next
    assume "\<exists>f. p = Fin f \<and> 0 \<le> f \<and> f \<le> 1"
    then obtain f where f: "p = Fin f" "0 \<le> f" "f \<le> 1" by blast
    show ?thesis
    proof (cases dur)
      case (Fin d)
      with assms have d: "0 < d" by simp
      have "f * d \<le> d" using f d by (simp add: mult_left_le_one_le)
      moreover have "0 \<le> f * d" using f d by simp
      ultimately show ?thesis using g f Fin d by (simp add: js_le_def js_ge_def not_less)
    next
      case PosInf
      then show ?thesis using g f by (auto simp: js_le_def js_ge_def)
    qed (use assms in auto)
  qed
qed

text \<open>
  C8, as stated, fails for a track of width zero: the code guards the missing element and
  the zero duration only, so a pointer to the right of the track divides by zero, the
  quotient \<open>Infinity\<close> is clamped to 1, and the result is the whole duration, not 0.
\<close>

theorem getSeekTime_zero_width_counterexample:
  "getSeekTime (Some \<lparr>left = 0, width = 0\<rparr>) (Fin 10) 50 = Fin 10
   \<and> getSeekTime (Some \<lparr>left = 0, width = 0\<rparr>) (Fin 10) 50 \<noteq> Fin 0"
  by (simp add: getSeekTime_def Math_min_def Math_max_def Let_def)

text \<open>
  C8 (amended): for a track of positive width the mapping returns
  \<open>clamp((pointerX - trackLeft) / trackWidth, 0, 1)\<close> scaled by the duration, for every
  pointer position; it returns 0 whenever the duration is zero (not yet known) and
  whenever the track element is not there.
\<close>

theorem getSeekTime_clamped:
  "(0 < width r \<longrightarrow>
      getSeekTime (Some r) dur clientX = js_mul (Fin (clamp01 ((clientX - left r) / width r))) dur)
   \<and> (0 < width r \<longrightarrow>
      getSeekTime (Some r) (Fin d) clientX = Fin (clamp01 ((clientX - left r) / width r) * d))
   \<and> getSeekTime (Some r) (Fin 0) clientX = Fin 0
   \<and> getSeekTime None dur clientX = Fin 0"
proof -
  have a: "getSeekTime (Some r) dur clientX = js_mul (Fin (clamp01 ((clientX - left r) / width r))) dur"
    if w: "0 < width r" for dur
  proof (cases "dur = Fin 0")
    case True
    then show ?thesis by (simp add: getSeekTime_def)
  next
    case False
    have "getSeekTime (Some r) dur clientX =
            js_mul (Math_max (Fin 0) (Math_min (Fin 1)
              (js_div (Fin (clientX - left r)) (Fin (width r))))) dur"
      using False unfolding getSeekTime_def Let_def by simp
    then show ?thesis by (simp only: percentage_pos_width [OF w])
  qed
  have b: "getSeekTime (Some r) (Fin d) clientX = Fin (clamp01 ((clientX - left r) / width r) * d)"
    if w: "0 < width r"
    using a [OF w, of "Fin d"] by simp
  have c: "getSeekTime (Some r) (Fin 0) clientX = Fin 0" by (simp add: getSeekTime_def)
  have d: "getSeekTime None dur clientX = Fin 0" by (simp add: getSeekTime_def)
  from a b c d show ?thesis by blast
qed

theorem getSeekTime_clamped_witness:
  "0 < width \<lparr>left = 20, width = 200\<rparr>
   \<and> getSeekTime (Some \<lparr>left = 20, width = 200\<rparr>) (Fin 10) 140 = Fin 6
   \<and> getSeekTime (Some \<lparr>left = 20, width = 200\<rparr>) (Fin 10) 500 = Fin 10
   \<and> getSeekTime (Some \<lparr>left = 20, width = 200\<rparr>) (Fin 10) 3 = Fin 0"
  using getSeekTime_clamped [of "\<lparr>left = 20, width = 200\<rparr>" "Fin 10" 140 10]
    getSeekTime_clamped [of "\<lparr>left = 20, width = 200\<rparr>" "Fin 10" 500 10]
    getSeekTime_clamped [of "\<lparr>left = 20, width = 200\<rparr>" "Fin 10" 3 10]
  by (simp add: clamp01_def)

section \<open>Setting the loop boundaries\<close>

lemma runEffects_same: "runEffects s s = s"
  by (simp add: runEffects_def)

text \<open>
  C4: an attempt to set \<open>loopStart\<close> to a candidate time \<open>t\<close>, by the "Set Start" command
  (where \<open>t\<close> is the playback position) or by a drag sample on the start handle (where
  \<open>t\<close> is the time under the pointer), sets \<open>loopStart\<close> to \<open>t\<close> if \<open>t < loopEnd\<close> and
  otherwise leaves the whole state as it was: the candidate is rejected, not clamped.
  Setting \<open>loopEnd\<close> is symmetric, with \<open>t > loopStart\<close>. The other boundary never moves.
\<close>

theorem boundary_update_rejected_not_clamped:
  "(v_currentTime (video s) = t \<longrightarrow>
      loopStart (dispatch ClickSetStart s) = (if js_lt t (loopEnd s) then t else loopStart s)
      \<and> loopEnd (dispatch ClickSetStart s) = loopEnd s
      \<and> (\<not> js_lt t (loopEnd s) \<longrightarrow> dispatch ClickSetStart s = s))
   \<and> (isDraggingStart s \<and> \<not> isDraggingPlayhead s \<and> getSeekTime r (duration s) x = t \<longrightarrow>
      loopStart (dispatch (MouseMove r x) s) = (if js_lt t (loopEnd s) then t else loopStart s)
      \<and> loopEnd (dispatch (MouseMove r x) s) = loopEnd s
      \<and> (\<not> js_lt t (loopEnd s) \<longrightarrow> dispatch (MouseMove r x) s = s))
   \<and> (v_currentTime (video s) = t \<longrightarrow>
      loopEnd (dispatch ClickSetEnd s) = (if js_lt (loopStart s) t then t else loopEnd s)
      \<and> loopStart (dispatch ClickSetEnd s) = loopStart s
      \<and> (\<not> js_lt (loopStart s) t \<longrightarrow> dispatch ClickSetEnd s = s))
   \<and> (isDraggingEnd s \<and> \<not> isDraggingStart s \<and> \<not> isDraggingPlayhead s
        \<and> getSeekTime r (duration s) x = t \<longrightarrow>
      loopEnd (dispatch (MouseMove r x) s) = (if js_lt (loopStart s) t then t else loopEnd s)
      \<and> loopStart (dispatch (MouseMove r x) s) = loopStart s
      \<and> (\<not> js_lt (loopStart s) t \<longrightarrow> dispatch (MouseMove r x) s = s))"
proof -
  have sync: "loopStart (runEffects s u) = loopStart u \<and> loopEnd (runEffects s u) = loopEnd u" for u
    by (simp add: runEffects_def syncActiveStep_def split: option.splits)
  have a: "handler ClickSetStart s = (if js_lt t (loopEnd s) then s\<lparr>loopStart := t\<rparr> else s)"
    if "v_currentTime (video s) = t"
    using that by (simp add: handleSetLoopStart_def)
  have b: "handler (MouseMove r x) s = (if js_lt t (loopEnd s) then s\<lparr>loopStart := t\<rparr> else s)"
    if "isDraggingStart s \<and> \<not> isDraggingPlayhead s \<and> getSeekTime r (duration s) x = t"
    using that by (simp add: handleMouseMove_def)
  have c: "handler ClickSetEnd s = (if js_lt (loopStart s) t then s\<lparr>loopEnd := t\<rparr> else s)"
    if "v_currentTime (video s) = t"
    using that by (simp add: handleSetLoopEnd_def js_gt_def)
  have d: "handler (MouseMove r x) s = (if js_lt (loopStart s) t then s\<lparr>loopEnd := t\<rparr> else s)"
    if "isDraggingEnd s \<and> \<not> isDraggingStart s \<and> \<not> isDraggingPlayhead s
        \<and> getSeekTime r (duration s) x = t"
    using that by (simp add: handleMouseMove_def js_gt_def)
  show ?thesis
    using a b c d by (simp add: dispatch_def sync runEffects_same)
qed

theorem boundary_update_rejected_not_clamped_witness:
  "isDraggingStart (mountPlayer\<lparr>duration := Fin 10, loopEnd := Fin 4, loopStart := Fin 1, isDraggingStart := True\<rparr>)
   \<and> getSeekTime (Some \<lparr>left = 0, width = 100\<rparr>) (Fin 10) 70 = Fin 7
   \<and> dispatch (MouseMove (Some \<lparr>left = 0, width = 100\<rparr>) 70)
        (mountPlayer\<lparr>duration := Fin 10, loopEnd := Fin 4, loopStart := Fin 1, isDraggingStart := True\<rparr>)
      = mountPlayer\<lparr>duration := Fin 10, loopEnd := Fin 4, loopStart := Fin 1, isDraggingStart := True\<rparr>
   \<and> loopStart (dispatch (MouseMove (Some \<lparr>left = 0, width = 100\<rparr>) 30)
        (mountPlayer\<lparr>duration := Fin 10, loopEnd := Fin 4, loopStart := Fin 1, isDraggingStart := True\<rparr>))
      = Fin 3"
proof -
  let ?s = "mountPlayer\<lparr>duration := Fin 10, loopEnd := Fin 4, loopStart := Fin 1, isDraggingStart := True\<rparr>"
  let ?r = "Some \<lparr>left = 0, width = 100\<rparr>"
  have g7: "getSeekTime ?r (Fin 10) 70 = Fin 7" and g3: "getSeekTime ?r (Fin 10) 30 = Fin 3"
    by (simp_all add: getSeekTime_def Math_min_def Math_max_def Let_def)
  have f: "isDraggingStart ?s" "\<not> isDraggingPlayhead ?s" "duration ?s = Fin 10"
    "loopEnd ?s = Fin 4" "loopStart ?s = Fin 1"
    by (simp_all add: mountPlayer_def syncActiveStep_def videoUrlEffect_def initial_player_def)
  show ?thesis
    using boundary_update_rejected_not_clamped [of ?s "Fin 7" ?r 70]
      boundary_update_rejected_not_clamped [of ?s "Fin 3" ?r 30] g7 g3 f
    by simp
qed

section \<open>Deleting a step\<close>

lemma filter_other_ids:
  assumes "distinct (map f xs)" and "k < length xs"
  shows "filter (\<lambda>x. f x \<noteq> f (xs ! k)) xs = take k xs @ drop (Suc k) xs"
proof -
  have split: "xs = take k xs @ xs ! k # drop (Suc k) xs"
    using assms(2) by (rule id_take_nth_drop)
  have "distinct (map f (take k xs @ xs ! k # drop (Suc k) xs))"
    using assms(1) split by simp
  then have l: "\<forall>x \<in> set (take k xs). f x \<noteq> f (xs ! k)"
    and r: "\<forall>x \<in> set (drop (Suc k) xs). f x \<noteq> f (xs ! k)"
    by (auto simp: image_iff)
  have "filter (\<lambda>x. f x \<noteq> f (xs ! k)) (take k xs @ xs ! k # drop (Suc k) xs)
        = take k xs @ drop (Suc k) xs"
    using l r by simp
  then show ?thesis using split by simp
qed

text \<open>
  Deleting goes by id: the entries with the id of the deleted step leave the list, which
  is that one entry when ids are distinct; \<open>loopStart\<close> and \<open>loopEnd\<close> are never touched.
  If the id is the active one, the active binding is cleared and \<open>isLooping\<close> is forced to
  false; if it is not, both stay as they are.
\<close>

lemma delete_step_by_id:
  assumes "k < length (steps s)"
  shows "steps (dispatch (ClickDeleteStep k) s)
           = filter (\<lambda>st. step_id st \<noteq> step_id (steps s ! k)) (steps s)
         \<and> step_id (steps s ! k) \<notin> set (map step_id (steps (dispatch (ClickDeleteStep k) s)))
         \<and> (distinct (map step_id (steps s)) \<longrightarrow>
              steps (dispatch (ClickDeleteStep k) s) = take k (steps s) @ drop (Suc k) (steps s))
         \<and> loopStart (dispatch (ClickDeleteStep k) s) = loopStart s
         \<and> loopEnd (dispatch (ClickDeleteStep k) s) = loopEnd s
         \<and> (activeStepId s = Some (step_id (steps s ! k)) \<longrightarrow>
              activeStepId (dispatch (ClickDeleteStep k) s) = None
              \<and> \<not> isLooping (dispatch (ClickDeleteStep k) s))
         \<and> (activeStepId s \<noteq> Some (step_id (steps s ! k)) \<longrightarrow>
              activeStepId (dispatch (ClickDeleteStep k) s) = activeStepId s
              \<and> isLooping (dispatch (ClickDeleteStep k) s) = isLooping s)"
proof -
  let ?i = "step_id (steps s ! k)"
  have d: "dispatch (ClickDeleteStep k) s =
             (if activeStepId s = Some ?i
              then s\<lparr>steps := filter (\<lambda>st. step_id st \<noteq> ?i) (steps s),
                     activeStepId := None, isLooping := False\<rparr>
              else s\<lparr>steps := filter (\<lambda>st. step_id st \<noteq> ?i) (steps s)\<rparr>)"
    using assms
    by (simp add: dispatch_def handleDeleteStep_def runEffects_def syncActiveStep_def Let_def)
  have f: "distinct (map step_id (steps s)) \<longrightarrow>
             filter (\<lambda>st. step_id st \<noteq> ?i) (steps s) = take k (steps s) @ drop (Suc k) (steps s)"
    using filter_other_ids [of step_id "steps s" k] assms by simp
  have m: "?i \<notin> set (map step_id (filter (\<lambda>st. step_id st \<noteq> ?i) (steps s)))"
    by auto
  show ?thesis using f m by (simp add: d)
qed

section \<open>Renaming a step\<close>

lemma trim_empty_iff: "trim name = [] \<longleftrightarrow> list_all is_whitespace name"
proof -
  have "trim name = [] \<longleftrightarrow> dropWhile is_whitespace (rev (dropWhile is_whitespace name)) = []"
    by (simp add: trim_def)
  also have "\<dots> \<longleftrightarrow> (\<forall>c \<in> set (dropWhile is_whitespace name). is_whitespace c)"
    by (simp add: dropWhile_eq_Nil_conv)
  also have "\<dots> \<longleftrightarrow> dropWhile is_whitespace name = []"
  proof
    assume a: "\<forall>c \<in> set (dropWhile is_whitespace name). is_whitespace c"
    show "dropWhile is_whitespace name = []"
    proof (cases "dropWhile is_whitespace name")
      case Nil
      then show ?thesis .
    next
      case (Cons c cs)
      then have "\<not> is_whitespace c" using hd_dropWhile [of is_whitespace name] by simp
      moreover have "is_whitespace c" using a Cons by simp
      ultimately show ?thesis by simp
    qed
  qed (auto dest: set_dropWhileD)
  also have "\<dots> \<longleftrightarrow> list_all is_whitespace name"
    by (simp add: dropWhile_eq_Nil_conv list_all_iff)
  finally show ?thesis .
qed

lemma rename_map_frame:
  "map step_id (map (\<lambda>st. if step_id st = i then st\<lparr>step_name := n\<rparr> else st) xs) = map step_id xs
   \<and> map step_start (map (\<lambda>st. if step_id st = i then st\<lparr>step_name := n\<rparr> else st) xs) = map step_start xs
   \<and> map step_end (map (\<lambda>st. if step_id st = i then st\<lparr>step_name := n\<rparr> else st) xs) = map step_end xs"
  by (induction xs) auto

text \<open>
  Renaming goes by id: committing a name that is empty or all whitespace changes nothing
  in the player state, and the input shows the stored name again; committing any other
  name stores it, as typed, in the steps with that id and in no step with another id. In
  both cases the ids, the ranges and the order of the list, and everything else in the
  state, are unchanged.
\<close>

lemma rename_by_id:
  assumes "k < length (steps s)"
  shows "(list_all is_whitespace name \<longrightarrow>
            dispatch (NameBlur k name) s = s
            \<and> fst (handleNameBlur (steps s ! k) name s) = step_name (steps s ! k))
         \<and> (\<not> list_all is_whitespace name \<longrightarrow>
            fst (handleNameBlur (steps s ! k) name s) = name
            \<and> step_name (steps (dispatch (NameBlur k name) s) ! k) = name
            \<and> (\<forall>j < length (steps s). step_id (steps s ! j) \<noteq> step_id (steps s ! k) \<longrightarrow>
                  steps (dispatch (NameBlur k name) s) ! j = steps s ! j))
         \<and> dispatch (NameBlur k name) s = s\<lparr>steps := steps (dispatch (NameBlur k name) s)\<rparr>
         \<and> map step_id (steps (dispatch (NameBlur k name) s)) = map step_id (steps s)
         \<and> map step_start (steps (dispatch (NameBlur k name) s)) = map step_start (steps s)
         \<and> map step_end (steps (dispatch (NameBlur k name) s)) = map step_end (steps s)"
proof (cases "list_all is_whitespace name")
  case True
  then have "handleNameBlur (steps s ! k) name s = (step_name (steps s ! k), s)"
    by (simp add: handleNameBlur_def trim_empty_iff)
  then have "dispatch (NameBlur k name) s = s 
     \<and> fst (handleNameBlur (steps s ! k) name s) = step_name (steps s ! k)"
    using assms by (simp add: dispatch_def runEffects_def)
  then show ?thesis using True by simp
next
  case False
  let ?i = "step_id (steps s ! k)"
  let ?f = "\<lambda>st. if step_id st = ?i then st\<lparr>step_name := name\<rparr> else st"
  have h: "handleNameBlur (steps s ! k) name s = (name, s\<lparr>steps := map ?f (steps s)\<rparr>)"
    using False by (simp add: handleNameBlur_def trim_empty_iff handleUpdateStepName_def)
  have d: "dispatch (NameBlur k name) s = s\<lparr>steps := map ?f (steps s)\<rparr>"
    using assms h by (simp add: dispatch_def runEffects_def)
  have n: "step_name (map ?f (steps s) ! k) = name" using assms by simp
  have o: "\<forall>j < length (steps s). step_id (steps s ! j) \<noteq> ?i \<longrightarrow> map ?f (steps s) ! j = steps s ! j"
    by simp
  show ?thesis
    using False n o rename_map_frame [of ?i name "steps s"] by (simp add: d h)
qed

section \<open>Step identities\<close>

text \<open>
  An import gives its entries distinct ids, whatever the clock reads: the id ends in the
  index of the entry, after the last \<open>-\<close>. An added step gets the timestamp alone.
\<close>

lemma digit_val_digit_char: "d < 10 \<Longrightarrow> digit_val (digit_char d) = d"
proof -
  assume "d < 10"
  then have "d \<in> {0,1,2,3,4,5,6,7,8,9}" by auto
  then show ?thesis by (auto simp: digit_val_def digit_char_def)
qed

lemma digit_char_not_dash: "d < 10 \<Longrightarrow> digit_char d \<noteq> CHR ''-''"
proof -
  assume "d < 10"
  then have "d \<in> {0,1,2,3,4,5,6,7,8,9}" by auto
  then show ?thesis by (auto simp: digit_char_def)
qed

lemma read_decimal_decimal: "read_decimal (decimal n) = n"
proof (induction n rule: decimal.induct)
  case (1 n)
  show ?case
  proof (cases "n < 10")
    case True
    then show ?thesis by (simp add: decimal.simps [of n] read_decimal_def digit_val_digit_char)
  next
    case False
    then have "read_decimal (decimal (n div 10)) = n div 10" using 1 by simp
    then show ?thesis
      using False by (simp add: decimal.simps [of n] read_decimal_def digit_val_digit_char)
  qed
qed

lemma decimal_no_dash: "CHR ''-'' \<notin> set (decimal n)"
proof (induction n rule: decimal.induct)
  case (1 n)
  show ?case
  proof (cases "n < 10")
    case True
    then show ?thesis using digit_char_not_dash [of n] by (simp add: decimal.simps [of n])
  next
    case False
    then have "CHR ''-'' \<notin> set (decimal (n div 10))" using 1 by simp
    then show ?thesis
      using False digit_char_not_dash [of "n mod 10"] by (simp add: decimal.simps [of n])
  qed
qed

lemma suffix_after_last_dash:
  assumes "CHR ''-'' \<notin> set d"
  shows "rev (takeWhile (\<lambda>c. c \<noteq> CHR ''-'') (rev (c @ ''-'' @ d))) = d"
  using assms by (simp add: takeWhile_append)

lemma import_id_inj:
  assumes "clock i @ ''-'' @ decimal i = clock' j @ ''-'' @ decimal j"
  shows "i = j"
proof -
  have "decimal i = rev (takeWhile (\<lambda>c. c \<noteq> CHR ''-'') (rev (clock i @ ''-'' @ decimal i)))"
    using suffix_after_last_dash [OF decimal_no_dash] by simp
  also have "\<dots> = rev (takeWhile (\<lambda>c. c \<noteq> CHR ''-'') (rev (clock' j @ ''-'' @ decimal j)))"
    using assms by simp
  also have "\<dots> = decimal j"
    using suffix_after_last_dash [OF decimal_no_dash] by simp
  finally have "read_decimal (decimal i) = read_decimal (decimal j)" by simp
  then show ?thesis by (simp add: read_decimal_decimal)
qed

lemma import_ids_distinct:
  "distinct (map step_id (steps (handleLoadSteps clock importedSteps s)))"
proof -
  let ?f = "\<lambda>(index, d::step_data). clock index @ ''-'' @ decimal index"
  have m: "map step_id (steps (handleLoadSteps clock importedSteps s))
           = map ?f (enumerate 0 importedSteps)"
    by (simp add: handleLoadSteps_def case_prod_unfold comp_def)
  have "inj_on ?f (set (enumerate 0 importedSteps))"
  proof (rule inj_onI)
    fix p q
    assume p: "p \<in> set (enumerate 0 importedSteps)" and q: "q \<in> set (enumerate 0 importedSteps)"
      and e: "?f p = ?f q"
    have "fst p = fst q" using e import_id_inj [of clock "fst p" clock "fst q"]
      by (simp add: case_prod_unfold)
    moreover have "snd p = importedSteps ! fst p" "snd q = importedSteps ! fst q"
      using p q by (auto simp: in_set_enumerate_eq)
    ultimately show "p = q" by (simp add: prod_eq_iff)
  qed
  moreover have "distinct (enumerate 0 importedSteps)"
    by (simp add: distinct_enumerate)
  ultimately show ?thesis by (simp add: m distinct_map)
qed

lemma add_step_ids:
  "map step_id (steps (handleAddStep now s)) = map step_id (steps s) @ [now]"
  by (simp add: handleAddStep_def Let_def)

text \<open>
  C9 at two "Add Step" clicks handled while the clock reads the same timestamp: the id of
  a new step is the timestamp alone, so both steps get the same id. (\<open>handleLoadSteps\<close>
  appends the index of the entry to the timestamp; \<open>handleAddStep\<close> appends nothing.)
\<close>

theorem add_step_same_timestamp_duplicate_ids:
  "map step_id (steps (run [ClickAddStep ''2026-01-01T00:00:00.000Z'',
                            ClickAddStep ''2026-01-01T00:00:00.000Z''] mountPlayer))
     = [''2026-01-01T00:00:00.000Z'', ''2026-01-01T00:00:00.000Z'']
   \<and> \<not> distinct (map step_id (steps (run [ClickAddStep ''2026-01-01T00:00:00.000Z'',
                            ClickAddStep ''2026-01-01T00:00:00.000Z''] mountPlayer)))"
  by (simp add: dispatch_def runEffects_def handleAddStep_def mountPlayer_def syncActiveStep_def
      videoUrlEffect_def initial_player_def Let_def)

section \<open>Loading a new source\<close>

lemma mountPlayer_eq:
  "mountPlayer =
     \<lparr>video = \<lparr>v_currentTime = Fin 0, v_duration = NaN, v_paused = True, v_seeks = []\<rparr>,
      isPlaying = False, currentTime = Fin 0, duration = Fin 0, isLooping = False,
      loopStart = Fin 0, loopEnd = Fin 0, steps = [], activeStepId = None,
      isDraggingPlayhead = False, isDraggingStart = False, isDraggingEnd = False\<rparr>"
  by (simp add: mountPlayer_def syncActiveStep_def videoUrlEffect_def initial_player_def new_source_def)

lemma load_new_source:
  "mounted (app_run [ClickNewVideo, SelectFile (Some (fname, url))] a) = Some mountPlayer"
  by (cases "mounted a")
    (simp_all add: handleNewVideo_def handleFileChange_def render_def split: option.splits)

text \<open>
  The effect on \<open>[videoUrl]\<close> alone resets neither \<open>isLooping\<close> nor the active step; a
  player that stayed mounted across a change of \<open>videoUrl\<close> would keep both. \<open>App\<close> never
  does that: "New Video" unmounts the player before another file can be selected.
\<close>

lemma videoUrlEffect_keeps:
  "isLooping (runEffects p (videoUrlEffect p)) = isLooping p
   \<and> activeStepId (runEffects p (videoUrlEffect p)) = activeStepId p"
  by (simp add: runEffects_def videoUrlEffect_def syncActiveStep_def split: option.splits)

text \<open>
  C2: from any state of the application, choosing "New Video" and selecting a file yields a
  player with \<open>loopStart = 0\<close>, \<open>loopEnd = 0\<close>, \<open>isLooping\<close> false, no handle captured and
  no active step; when the metadata of the new source arrives, \<open>loopEnd\<close> becomes its
  duration and the rest stays reset.
\<close>

theorem new_source_resets_controller:
  "mounted (app_run [ClickNewVideo, SelectFile (Some (fname, url))] a) = Some mountPlayer
   \<and> loopStart mountPlayer = Fin 0 \<and> loopEnd mountPlayer = Fin 0
   \<and> \<not> isLooping mountPlayer \<and> activeStepId mountPlayer = None
   \<and> \<not> isDraggingPlayhead mountPlayer \<and> \<not> isDraggingStart mountPlayer
   \<and> \<not> isDraggingEnd mountPlayer
   \<and> mounted (app_run [ClickNewVideo, SelectFile (Some (fname, url)),
                        PlayerEvent (LoadedMetadata d)] a)
       = Some (dispatch (LoadedMetadata d) mountPlayer)
   \<and> loopStart (dispatch (LoadedMetadata d) mountPlayer) = Fin 0
   \<and> loopEnd (dispatch (LoadedMetadata d) mountPlayer) = d
   \<and> duration (dispatch (LoadedMetadata d) mountPlayer) = d
   \<and> \<not> isLooping (dispatch (LoadedMetadata d) mountPlayer)
   \<and> activeStepId (dispatch (LoadedMetadata d) mountPlayer) = None
   \<and> \<not> isDraggingPlayhead (dispatch (LoadedMetadata d) mountPlayer)
   \<and> \<not> isDraggingStart (dispatch (LoadedMetadata d) mountPlayer)
   \<and> \<not> isDraggingEnd (dispatch (LoadedMetadata d) mountPlayer)"
proof -
  have m: "dispatch (LoadedMetadata d) mountPlayer
            = mountPlayer\<lparr>video := (video mountPlayer)\<lparr>v_duration := d\<rparr>, duration := d, loopEnd := d\<rparr>"
    by (simp add: dispatch_def runEffects_def handleLoadedMetadata_def syncActiveStep_def mountPlayer_eq)
  have r: "mounted (app_run [ClickNewVideo, SelectFile (Some (fname, url)),
                        PlayerEvent (LoadedMetadata d)] a)
       = Some (dispatch (LoadedMetadata d) mountPlayer)"
    using load_new_source [of fname url a] by simp
  show ?thesis
    using load_new_source [of fname url a] r by (simp add: m) (simp add: mountPlayer_eq)
qed

section \<open>The playback loop\<close>

lemma time_update_seeks:
  "v_seeks (video (dispatch (TimeUpdate d) s)) =
     v_seeks (video s) @
       (if isLooping s \<and> js_ge (v_currentTime (played d (video s))) (loopEnd s)
        then [loopStart s] else [])"
proof -
  have p: "v_seeks (played d v) = v_seeks v" for v
    by (simp add: played_def split: jsnum.splits)
  have q: "v_seeks (state_of (set_currentTime t v)) = v_seeks v @ [t]" for t v
    by (simp add: set_currentTime_def split: jsnum.splits)
  have r: "video (runEffects s u) = video u" for u
    by (simp add: runEffects_def syncActiveStep_def split: option.splits)
  show ?thesis
    by (simp add: dispatch_def r handleTimeUpdate_def Let_def p q)
qed

lemma time_update_keeps_loop_state:
  "isLooping (dispatch (TimeUpdate d) s) = isLooping s
   \<and> loopStart (dispatch (TimeUpdate d) s) = loopStart s
   \<and> loopEnd (dispatch (TimeUpdate d) s) = loopEnd s"
  by (simp add: dispatch_def runEffects_def syncActiveStep_def handleTimeUpdate_def Let_def
      split: option.splits)

lemma not_looping_never_seeks:
  "\<not> isLooping s \<Longrightarrow> v_seeks (video (run (map TimeUpdate ds) s)) = v_seeks (video s)"
proof (induction ds arbitrary: s)
  case Nil
  then show ?case by simp
next
  case (Cons d ds)
  have "\<not> isLooping (dispatch (TimeUpdate d) s)"
    using Cons.prems by (simp add: time_update_keeps_loop_state)
  then have "v_seeks (video (run (map TimeUpdate ds) (dispatch (TimeUpdate d) s)))
             = v_seeks (video (dispatch (TimeUpdate d) s))"
    by (rule Cons.IH)
  then show ?case using Cons.prems by (simp add: time_update_seeks)
qed

lemma stream_seeks_to_loopStart:
  "\<exists>n \<le> length ds.
     v_seeks (video (run (map TimeUpdate ds) s)) = v_seeks (video s) @ replicate n (loopStart s)"
proof (induction ds arbitrary: s)
  case Nil
  then show ?case by simp
next
  case (Cons d ds)
  let ?s1 = "dispatch (TimeUpdate d) s"
  obtain n where n: "n \<le> length ds"
    "v_seeks (video (run (map TimeUpdate ds) ?s1)) = v_seeks (video ?s1) @ replicate n (loopStart ?s1)"
    using Cons.IH [of ?s1] by blast
  have l: "loopStart ?s1 = loopStart s" by (simp add: time_update_keeps_loop_state)
  show ?case
  proof (cases "isLooping s \<and> js_ge (v_currentTime (played d (video s))) (loopEnd s)")
    case True
    then have "v_seeks (video (run (map TimeUpdate (d # ds)) s))
               = v_seeks (video s) @ replicate (Suc n) (loopStart s)"
      using n(2) l by (simp add: time_update_seeks)
    moreover have "Suc n \<le> length (d # ds)" using n(1) by simp
    ultimately show ?thesis by blast
  next
    case False
    then have "v_seeks (video (run (map TimeUpdate (d # ds)) s))
               = v_seeks (video s) @ replicate n (loopStart s)"
      using n(2) l by (simp add: time_update_seeks)
    moreover have "n \<le> length (d # ds)" using n(1) by simp
    ultimately show ?thesis by blast
  qed
qed

lemma position_after_seek:
  assumes "isLooping s" "js_ge (v_currentTime (played d (video s))) (loopEnd s)"
    "loopStart s = Fin a" "0 \<le> a"
  shows "\<exists>y. v_currentTime (video (dispatch (TimeUpdate d) s)) = Fin y \<and> 0 \<le> y \<and> y \<le> a"
proof -
  have r: "video (runEffects s u) = video u" for u
    by (simp add: runEffects_def syncActiveStep_def split: option.splits)
  have "v_currentTime (video (dispatch (TimeUpdate d) s))
        = (case v_duration (played d (video s)) of
             Fin e \<Rightarrow> Fin (max 0 (min e a)) | _ \<Rightarrow> Fin (max 0 a))"
    using assms by (simp add: dispatch_def r handleTimeUpdate_def Let_def set_currentTime_def)
  then show ?thesis using assms(4) by (auto split: jsnum.splits)
qed

lemma no_seek_below_end:
  assumes "v_currentTime (video s) = Fin y" "y \<le> a" "0 \<le> d" "js_lt (Fin (a + d)) (loopEnd s)"
  shows "v_seeks (video (dispatch (TimeUpdate d) s)) = v_seeks (video s)"
proof -
  have "\<exists>z. v_currentTime (played d (video s)) = Fin z \<and> z \<le> a + d"
    using assms(1,2,3) by (auto simp: played_def split: jsnum.splits)
  then obtain z where z: "v_currentTime (played d (video s)) = Fin z" "z \<le> a + d" by blast
  have "\<not> js_ge (Fin z) (loopEnd s)"
    using z(2) assms(4) by (cases "loopEnd s") (auto simp: js_ge_def)
  then show ?thesis by (simp add: time_update_seeks z(1))
qed


lemma looping_5_10_eq:
  "looping_5_10 =
     \<lparr>video = \<lparr>v_currentTime = Fin 5, v_duration = Fin 20, v_paused = False, v_seeks = []\<rparr>,
      isPlaying = True, currentTime = Fin 5, duration = Fin 20, isLooping = True,
      loopStart = Fin 5, loopEnd = Fin 10, steps = [], activeStepId = None,
      isDraggingPlayhead = False, isDraggingStart = False, isDraggingEnd = False\<rparr>"
  by (simp add: looping_5_10_def mountPlayer_def syncActiveStep_def videoUrlEffect_def
      initial_player_def new_source_def)

lemma time_update_plain:
  "dispatch (TimeUpdate d)
     \<lparr>video = \<lparr>v_currentTime = Fin c, v_duration = Fin 20, v_paused = False, v_seeks = l\<rparr>,
      isPlaying = True, currentTime = Fin k, duration = Fin 20, isLooping = True,
      loopStart = Fin 5, loopEnd = Fin 10, steps = [], activeStepId = None,
      isDraggingPlayhead = False, isDraggingStart = False, isDraggingEnd = False\<rparr>
   = (if 10 \<le> min 20 (c + d)
      then \<lparr>video = \<lparr>v_currentTime = Fin 5, v_duration = Fin 20, v_paused = False,
                      v_seeks = l @ [Fin 5]\<rparr>,
            isPlaying = True, currentTime = Fin (min 20 (c + d)), duration = Fin 20,
            isLooping = True, loopStart = Fin 5, loopEnd = Fin 10, steps = [],
            activeStepId = None, isDraggingPlayhead = False, isDraggingStart = False,
            isDraggingEnd = False\<rparr>
      else \<lparr>video = \<lparr>v_currentTime = Fin (min 20 (c + d)), v_duration = Fin 20, v_paused = False,
                      v_seeks = l\<rparr>,
            isPlaying = True, currentTime = Fin (min 20 (c + d)), duration = Fin 20,
            isLooping = True, loopStart = Fin 5, loopEnd = Fin 10, steps = [],
            activeStepId = None, isDraggingPlayhead = False, isDraggingStart = False,
            isDraggingEnd = False\<rparr>)"
  by (simp add: dispatch_def runEffects_def handleTimeUpdate_def played_def set_currentTime_def
      js_ge_def Let_def not_less)

lemma stream_5_to_9:
  "v_seeks (video (run (position_updates [5, 6, 7, 8, 9]) looping_5_10)) = []"
  by (simp add: position_updates_def looping_5_10_eq time_update_plain)

lemma stream_5_to_10:
  "v_seeks (video (run (position_updates [5, 6, 7, 8, 9, 10]) looping_5_10)) = [Fin 5]"
  by (simp add: position_updates_def looping_5_10_eq time_update_plain)

lemma stream_5_to_10_1:
  "v_seeks (video (run (position_updates [5, 6, 7, 8, 9, 10, 10.1]) looping_5_10)) = [Fin 5]"
  by (simp add: position_updates_def looping_5_10_eq time_update_plain)

text \<open>
  C3: at every position-update notification the handler assigns \<open>loopStart\<close> to
  \<open>video.currentTime\<close>, once, exactly if \<open>isLooping\<close> holds and the position it reads from
  the element has reached or passed \<open>loopEnd\<close>; otherwise it assigns nothing. Over a
  stream of notifications every seek goes to \<open>loopStart\<close>, at most one for each
  notification. The seek
  takes effect in the element at once, so the next notification reads a position from
  \<open>loopStart\<close> on and issues no further seek while that position is below \<open>loopEnd\<close>.
  With \<open>isLooping\<close> false no stream of notifications issues a seek. With
  \<open>loopStart = 5\<close>, \<open>loopEnd = 10\<close> and the updates 5, 6, 7, 8, 9, 10.0, 10.1 there is no
  seek up to the update 9, exactly one seek, to 5, at the update 10.0, and none at the
  next update, a tenth of a second later.
\<close>

theorem loop_seek_once_per_crossing:
  "v_seeks (video (dispatch (TimeUpdate d) s)) =
     v_seeks (video s) @
       (if isLooping s \<and> js_ge (v_currentTime (played d (video s))) (loopEnd s)
        then [loopStart s] else [])
   \<and> (\<exists>n \<le> length ds.
        v_seeks (video (run (map TimeUpdate ds) s)) = v_seeks (video s) @ replicate n (loopStart s))
   \<and> (isLooping s \<and> js_ge (v_currentTime (played d (video s))) (loopEnd s)
        \<and> loopStart s = Fin a \<and> 0 \<le> a \<and> 0 \<le> d' \<and> js_lt (Fin (a + d')) (loopEnd s) \<longrightarrow>
        v_seeks (video (run [TimeUpdate d, TimeUpdate d'] s)) = v_seeks (video s) @ [Fin a])
   \<and> (\<not> isLooping s \<longrightarrow> v_seeks (video (run (map TimeUpdate ds) s)) = v_seeks (video s))
   \<and> v_seeks (video (run (position_updates [5, 6, 7, 8, 9]) looping_5_10)) = []
   \<and> v_seeks (video (run (position_updates [5, 6, 7, 8, 9, 10]) looping_5_10)) = [Fin 5]
   \<and> v_seeks (video (run (position_updates [5, 6, 7, 8, 9, 10, 10.1]) looping_5_10)) = [Fin 5]"
proof -
  have b: "v_seeks (video (run [TimeUpdate d, TimeUpdate d'] s)) = v_seeks (video s) @ [Fin a]"
    if h: "isLooping s \<and> js_ge (v_currentTime (played d (video s))) (loopEnd s)
        \<and> loopStart s = Fin a \<and> 0 \<le> a \<and> 0 \<le> d' \<and> js_lt (Fin (a + d')) (loopEnd s)"
  proof -
    let ?s1 = "dispatch (TimeUpdate d) s"
    obtain y where y: "v_currentTime (video ?s1) = Fin y" "y \<le> a"
      using position_after_seek [of s d a] h by blast
    have e: "js_lt (Fin (a + d')) (loopEnd ?s1)"
      using h by (simp add: time_update_keeps_loop_state)
    have "v_seeks (video (dispatch (TimeUpdate d') ?s1)) = v_seeks (video ?s1)"
      using no_seek_below_end [OF y] h e by blast
    then show ?thesis using h by (simp add: time_update_seeks)
  qed
  have c: "\<not> isLooping s \<longrightarrow> v_seeks (video (run (map TimeUpdate ds) s)) = v_seeks (video s)"
    using not_looping_never_seeks [of s ds] by blast
  from b c show ?thesis
    using time_update_seeks [of d s] stream_seeks_to_loopStart [of ds s]
      stream_5_to_9 stream_5_to_10 stream_5_to_10_1
    by blast
qed

theorem loop_seek_once_per_crossing_witness:
  "isLooping looping_5_10
   \<and> js_ge (v_currentTime (played 5.5 (video looping_5_10))) (loopEnd looping_5_10)
   \<and> loopStart looping_5_10 = Fin 5 \<and> js_lt (Fin (5 + 0.25)) (loopEnd looping_5_10)
   \<and> v_seeks (video (run [TimeUpdate 5.5, TimeUpdate 0.25] looping_5_10)) = [Fin 5]
   \<and> \<not> isLooping (looping_5_10\<lparr>isLooping := False\<rparr>)
   \<and> v_seeks (video (run (map TimeUpdate [3, 3, 3]) (looping_5_10\<lparr>isLooping := False\<rparr>))) = []"
proof -
  have h: "isLooping looping_5_10"
    "js_ge (v_currentTime (played 5.5 (video looping_5_10))) (loopEnd looping_5_10)"
    "loopStart looping_5_10 = Fin 5" "js_lt (Fin (5 + 0.25)) (loopEnd looping_5_10)"
    "v_seeks (video looping_5_10) = []"
    by (simp_all add: looping_5_10_eq played_def js_ge_def)
  have "v_seeks (video (run [TimeUpdate 5.5, TimeUpdate 0.25] looping_5_10)) = [Fin 5]"
    using loop_seek_once_per_crossing [where d = "5.5" and s = looping_5_10 and a = 5 and d' = "0.25"] h by simp
  moreover have "v_seeks (video (run (map TimeUpdate [3, 3, 3]) (looping_5_10\<lparr>isLooping := False\<rparr>))) = []"
    using loop_seek_once_per_crossing
            [where s = "looping_5_10\<lparr>isLooping := False\<rparr>" and ds = "[3, 3, 3]"] h(5)
    by simp
  ultimately show ?thesis using h by simp
qed

section \<open>The active step follows the loop range\<close>

lemmas eval_defs = dispatch_def runEffects_def syncActiveStep_def handleLoadedMetadata_def
  handleLoadSteps_def handlePlayStep_def handleSeek_def set_currentTime_def togglePlayPause_def
  handleMouseMove_def handleMouseUp_def getSeekTime_def Math_min_def Math_max_def js_gt_def
  step_A_def step_B_def track_def fixed_clock_def Let_def decimal.simps digit_char_def

lemma runEffects_fields:
  "loopStart (runEffects s u) = loopStart u \<and> loopEnd (runEffects s u) = loopEnd u
   \<and> activeStepId (runEffects s u) = activeStepId u"
  by (simp add: runEffects_def syncActiveStep_def split: option.splits)

lemma sync_steps:
  "steps (runEffects s u) = steps u
   \<or> steps (runEffects s u) =
       map (\<lambda>st. if Some (step_id st) = activeStepId u
                  then st\<lparr>step_start := loopStart u, step_end := loopEnd u\<rparr> else st) (steps u)"
  by (auto simp: runEffects_def syncActiveStep_def split: option.splits)

lemma handleSeek_steps: "steps (state_of (handleSeek t s)) = steps s"
  by (simp add: handleSeek_def set_currentTime_def split: jsnum.splits)

lemma handler_keeps_steps: "\<not> edits_step_list e \<Longrightarrow> steps (handler e s) = steps s"
proof (cases e)
  case (ClickPlayStep k)
  have "steps (handlePlayStep st s) = steps s" for st
    by (simp add: handlePlayStep_def handleSeek_def set_currentTime_def togglePlayPause_def Let_def
        split: jsnum.splits)
  then show ?thesis using ClickPlayStep by simp
next
  case (MouseMove r x)
  then show ?thesis by (simp add: handleMouseMove_def handleSeek_steps Let_def)
next
  case (TimelineClick r x)
  then show ?thesis by (simp add: handleTimelineClick_def handleSeek_steps Let_def)
qed (simp_all add: handleLoadedMetadata_def handleTimeUpdate_def togglePlayPause_def
      handleReset_def handleSetLoopStart_def handleSetLoopEnd_def handleMouseUp_def Let_def)

lemma mirrored_after_change:
  assumes "activeStepId (dispatch e s) = Some a"
    and "loopStart (dispatch e s) \<noteq> loopStart s \<or> loopEnd (dispatch e s) \<noteq> loopEnd s"
    and "st \<in> set (steps (dispatch e s))" and "step_id st = a"
  shows "step_start st = loopStart (dispatch e s) \<and> step_end st = loopEnd (dispatch e s)"
proof -
  let ?h = "handler e s"
  have act: "activeStepId ?h = Some a"
    using assms(1) by (simp add: dispatch_def runEffects_fields)
  have ch: "loopStart ?h \<noteq> loopStart s \<or> loopEnd ?h \<noteq> loopEnd s"
    using assms(2) by (simp add: dispatch_def runEffects_fields)
  then have "dispatch e s = syncActiveStep ?h"
    by (auto simp: dispatch_def runEffects_def)
  then have "steps (dispatch e s) =
      map (\<lambda>x. if step_id x = a then x\<lparr>step_start := loopStart ?h, step_end := loopEnd ?h\<rparr> else x)
        (steps ?h)"
    using act by (simp add: syncActiveStep_def)
  then have "st \<in> (\<lambda>x. if step_id x = a
      then x\<lparr>step_start := loopStart ?h, step_end := loopEnd ?h\<rparr> else x) ` set (steps ?h)"
    using assms(3) by simp
  then obtain x where "st = (if step_id x = a
      then x\<lparr>step_start := loopStart ?h, step_end := loopEnd ?h\<rparr> else x)"
    by blast
  then have "step_start st = loopStart ?h \<and> step_end st = loopEnd ?h"
    using assms(4) by (cases "step_id x = a") auto
  then show ?thesis by (simp add: dispatch_def runEffects_fields)
qed

lemma frame_of_sync:
  assumes "\<not> edits_step_list e"
  shows "map step_id (steps (dispatch e s)) = map step_id (steps s)
         \<and> map step_name (steps (dispatch e s)) = map step_name (steps s)
         \<and> (\<forall>j < length (steps s). Some (step_id (steps s ! j)) \<noteq> activeStepId (dispatch e s) \<longrightarrow>
               steps (dispatch e s) ! j = steps s ! j)"
proof -
  let ?h = "handler e s"
  let ?f = "\<lambda>st. if Some (step_id st) = activeStepId ?h
                  then st\<lparr>step_start := loopStart ?h, step_end := loopEnd ?h\<rparr> else st"
  have k: "steps ?h = steps s" using assms by (rule handler_keeps_steps)
  have a: "activeStepId (dispatch e s) = activeStepId ?h"
    by (simp add: dispatch_def runEffects_fields)
  have i: "map step_id (map ?f xs) = map step_id xs \<and> map step_name (map ?f xs) = map step_name xs"
    for xs by (induction xs) auto
  from sync_steps [of s ?h] show ?thesis
  proof
    assume "steps (runEffects s ?h) = steps ?h"
    then show ?thesis by (simp add: dispatch_def k)
  next
    assume "steps (runEffects s ?h) = map ?f (steps ?h)"
    then have m: "steps (dispatch e s) = map ?f (steps s)" by (simp add: dispatch_def k)
    show ?thesis using i [of "steps s"] by (simp add: m a)
  qed
qed

lemma scenario_4:
  "run (take 4 play_A_drag_end_to_6) mountPlayer =
     \<lparr>video = \<lparr>v_currentTime = Fin 2, v_duration = Fin 10, v_paused = False, v_seeks = [Fin 2]\<rparr>,
      isPlaying = True, currentTime = Fin 2, duration = Fin 10,
      isLooping = True, loopStart = Fin 2, loopEnd = Fin 4,
      steps = [\<lparr>step_name = ascii ''A'', step_start = Fin 2, step_end = Fin 4, step_id = ''t-0''\<rparr>,
               \<lparr>step_name = ascii ''B'', step_start = Fin 3, step_end = Fin 5, step_id = ''t-1''\<rparr>],
      activeStepId = Some ''t-0'', isDraggingPlayhead = False,
      isDraggingStart = False, isDraggingEnd = True\<rparr>"
  by (simp add: play_A_drag_end_to_6_def mountPlayer_eq eval_defs)

lemma scenario_A:
  "run play_A_drag_end_to_6 mountPlayer =
     \<lparr>video = \<lparr>v_currentTime = Fin 2, v_duration = Fin 10, v_paused = False, v_seeks = [Fin 2]\<rparr>,
      isPlaying = True, currentTime = Fin 2, duration = Fin 10,
      isLooping = True, loopStart = Fin 2, loopEnd = Fin 6,
      steps = [\<lparr>step_name = ascii ''A'', step_start = Fin 2, step_end = Fin 6, step_id = ''t-0''\<rparr>,
               \<lparr>step_name = ascii ''B'', step_start = Fin 3, step_end = Fin 5, step_id = ''t-1''\<rparr>],
      activeStepId = Some ''t-0'', isDraggingPlayhead = False,
      isDraggingStart = False, isDraggingEnd = False\<rparr>"
  by (simp add: play_A_drag_end_to_6_def mountPlayer_eq eval_defs)

lemma run_append: "run (es @ fs) s = run fs (run es s)"
  by (induction es arbitrary: s) simp_all

lemma scenario_B_activated:
  "stored_ranges (run (play_A_drag_end_to_6 @ [ClickPlayStep 1]) mountPlayer)
     = [(''t-0'', Fin 2, Fin 6), (''t-1'', Fin 3, Fin 5)]"
  by (simp add: run_append scenario_A stored_ranges_def eval_defs)

lemma scenario_B:
  "stored_ranges (run (play_A_drag_end_to_6 @ play_B_drag_end_to_8) mountPlayer)
     = [(''t-0'', Fin 2, Fin 6), (''t-1'', Fin 3, Fin 8)]"
  by (simp add: run_append scenario_A play_B_drag_end_to_8_def stored_ranges_def eval_defs)

text \<open>
  The mirror goes by id: whenever an event changes \<open>loopStart\<close> or \<open>loopEnd\<close> while a step
  is active, the steps with the active id hold the new range afterwards. No event other
  than the four that edit the list (add, delete, rename, import) changes an id, a name,
  the order, or any step whose id is not the active one. In the session with the steps A
  and B, whose ids differ, A's stored range is \<open>[2, 6]\<close> after its end was dragged to 6,
  still \<open>[2, 6]\<close> when B has been activated, and still \<open>[2, 6]\<close> after B's end was
  dragged to 8.
\<close>

lemma active_step_sync_by_id:
  "(activeStepId (dispatch e s) = Some a
      \<and> (loopStart (dispatch e s) \<noteq> loopStart s \<or> loopEnd (dispatch e s) \<noteq> loopEnd s) \<longrightarrow>
      (\<forall>st \<in> set (steps (dispatch e s)). step_id st = a \<longrightarrow>
         step_start st = loopStart (dispatch e s) \<and> step_end st = loopEnd (dispatch e s)))
   \<and> (\<not> edits_step_list e \<longrightarrow>
        map step_id (steps (dispatch e s)) = map step_id (steps s)
        \<and> map step_name (steps (dispatch e s)) = map step_name (steps s)
        \<and> (\<forall>j < length (steps s). Some (step_id (steps s ! j)) \<noteq> activeStepId (dispatch e s) \<longrightarrow>
              steps (dispatch e s) ! j = steps s ! j))
   \<and> stored_ranges (run play_A_drag_end_to_6 mountPlayer)
        = [(''t-0'', Fin 2, Fin 6), (''t-1'', Fin 3, Fin 5)]
   \<and> activeStepId (run play_A_drag_end_to_6 mountPlayer) = Some ''t-0''
   \<and> stored_ranges (run (play_A_drag_end_to_6 @ [ClickPlayStep 1]) mountPlayer)
        = [(''t-0'', Fin 2, Fin 6), (''t-1'', Fin 3, Fin 5)]
   \<and> stored_ranges (run (play_A_drag_end_to_6 @ play_B_drag_end_to_8) mountPlayer)
        = [(''t-0'', Fin 2, Fin 6), (''t-1'', Fin 3, Fin 8)]"
proof -
  have a: "activeStepId (dispatch e s) = Some a
      \<and> (loopStart (dispatch e s) \<noteq> loopStart s \<or> loopEnd (dispatch e s) \<noteq> loopEnd s) \<longrightarrow>
      (\<forall>st \<in> set (steps (dispatch e s)). step_id st = a \<longrightarrow>
         step_start st = loopStart (dispatch e s) \<and> step_end st = loopEnd (dispatch e s))"
    using mirrored_after_change [of e s a] by blast
  have b: "\<not> edits_step_list e \<longrightarrow>
        map step_id (steps (dispatch e s)) = map step_id (steps s)
        \<and> map step_name (steps (dispatch e s)) = map step_name (steps s)
        \<and> (\<forall>j < length (steps s). Some (step_id (steps s ! j)) \<noteq> activeStepId (dispatch e s) \<longrightarrow>
              steps (dispatch e s) ! j = steps s ! j)"
    using frame_of_sync [of e s] by blast
  have c: "stored_ranges (run play_A_drag_end_to_6 mountPlayer)
        = [(''t-0'', Fin 2, Fin 6), (''t-1'', Fin 3, Fin 5)]
      \<and> activeStepId (run play_A_drag_end_to_6 mountPlayer) = Some ''t-0''"
    by (simp add: scenario_A stored_ranges_def)
  from a b c scenario_B_activated scenario_B show ?thesis by blast
qed

section \<open>The loop range invariant\<close>

lemma js_lt_NaN_right [simp]: "js_lt a NaN = False"
  by (cases a) simp_all

lemma range_ok_duration_pos: "range_ok s \<Longrightarrow> js_lt (Fin 0) (duration s)"
  unfolding range_ok_def js_le_def js_ge_def
  by (cases "loopStart s"; cases "loopEnd s"; cases "duration s") auto

lemma set_currentTime_pos_ok:
  assumes "js_lt (Fin 0) dur" "v_duration v = dur" "pos_ok dur (v_currentTime v)"
  shows "pos_ok dur (v_currentTime (state_of (set_currentTime t v)))
         \<and> v_duration (state_of (set_currentTime t v)) = dur"
  using assms unfolding pos_ok_def js_le_def js_ge_def set_currentTime_def
  by (cases t; cases dur) auto

lemma played_pos_ok:
  assumes "0 \<le> d" "js_lt (Fin 0) dur" "v_duration v = dur" "pos_ok dur (v_currentTime v)"
  shows "pos_ok dur (v_currentTime (played d v)) \<and> v_duration (played d v) = dur"
  using assms unfolding pos_ok_def js_le_def js_ge_def played_def
  by (cases "v_currentTime v"; cases dur) auto

lemma player_inv_alt:
  "player_inv s \<longleftrightarrow>
     range_ok s \<and> v_duration (video s) = duration s \<and> pos_ok (duration s) (v_currentTime (video s))
     \<and> list_all (stored_ok (duration s)) (steps s)"
  by (auto simp: player_inv_def pos_ok_def)

lemma handleSeek_inv:
  assumes "player_inv s"
  shows "player_inv (state_of (handleSeek t s))"
proof -
  have p: "js_lt (Fin 0) (duration s)" using assms by (simp add: player_inv_alt range_ok_duration_pos)
  have "pos_ok (duration s) (v_currentTime (state_of (set_currentTime t (video s))))
         \<and> v_duration (state_of (set_currentTime t (video s))) = duration s"
    using set_currentTime_pos_ok [OF p, of "video s" t] assms by (simp add: player_inv_alt)
  then show ?thesis
    using assms
    by (cases "set_currentTime t (video s)")
       (simp_all add: handleSeek_def player_inv_alt range_ok_def)
qed

lemma runEffects_inv:
  assumes "player_inv u"
  shows "player_inv (runEffects s u)"
proof (cases "runEffects s u = u")
  case True
  then show ?thesis using assms by simp
next
  case False
  then obtain a where a: "activeStepId u = Some a" and r: "runEffects s u = syncActiveStep u"
    by (auto simp: runEffects_def syncActiveStep_def split: option.splits if_splits)
  have ok: "stored_ok (duration u) (st\<lparr>step_start := loopStart u, step_end := loopEnd u\<rparr>)" for st :: step
    using assms by (simp add: player_inv_alt range_ok_def stored_ok_def)
  have "list_all (stored_ok (duration u))
          (map (\<lambda>st. if step_id st = a then st\<lparr>step_start := loopStart u, step_end := loopEnd u\<rparr>
                      else st) (steps u))"
    using assms ok by (auto simp: player_inv_alt list_all_iff)
  then show ?thesis
    using assms a by (simp add: r syncActiveStep_def player_inv_alt range_ok_def)
qed


lemma handleSeek_duration: "duration (state_of (handleSeek t s)) = duration s"
  by (cases "set_currentTime t (video s)") (simp_all add: handleSeek_def)

lemma time_update_inv:
  assumes "player_inv s" "0 \<le> d"
  shows "player_inv (handler (TimeUpdate d) s)"
proof -
  have p: "js_lt (Fin 0) (duration s)" using assms by (simp add: player_inv_alt range_ok_duration_pos)
  let ?v = "played d (video s)"
  have v: "pos_ok (duration s) (v_currentTime ?v) \<and> v_duration ?v = duration s"
    using played_pos_ok [OF assms(2) p, of "video s"] assms(1) by (simp add: player_inv_alt)
  then have w: "pos_ok (duration s) (v_currentTime (state_of (set_currentTime t ?v)))
         \<and> v_duration (state_of (set_currentTime t ?v)) = duration s" for t
    using set_currentTime_pos_ok [OF p, of ?v t] by simp
  show ?thesis
    using assms(1) v w by (simp add: handleTimeUpdate_def Let_def player_inv_alt range_ok_def)
qed

lemma reset_inv:
  assumes "player_inv s"
  shows "player_inv (handleReset s)"
proof -
  have p: "js_lt (Fin 0) (duration s)" using assms by (simp add: player_inv_alt range_ok_duration_pos)
  have "pos_ok (duration s) (v_currentTime (state_of (set_currentTime (loopStart s) (video s))))
         \<and> v_duration (state_of (set_currentTime (loopStart s) (video s))) = duration s"
    using set_currentTime_pos_ok [OF p, of "video s" "loopStart s"] assms by (simp add: player_inv_alt)
  then show ?thesis using assms by (simp add: handleReset_def player_inv_alt range_ok_def)
qed

lemma set_start_inv:
  assumes "player_inv s"
  shows "player_inv (handleSetLoopStart s)"
  using assms
  by (simp add: handleSetLoopStart_def Let_def player_inv_alt range_ok_def pos_ok_def)

lemma set_end_inv:
  assumes "player_inv s"
  shows "player_inv (handleSetLoopEnd s)"
  using assms
  by (simp add: handleSetLoopEnd_def Let_def player_inv_alt range_ok_def pos_ok_def js_gt_def)

lemma add_step_inv:
  assumes "player_inv s"
  shows "player_inv (handleAddStep now s)"
  using assms
  by (simp add: handleAddStep_def Let_def player_inv_alt range_ok_def stored_ok_def)

lemma play_step_inv:
  assumes "player_inv s" "k < length (steps s)"
  shows "player_inv (handlePlayStep (steps s ! k) s)"
proof -
  let ?st = "steps s ! k"
  let ?s1 = "s\<lparr>activeStepId := Some (step_id ?st), loopStart := step_start ?st,
                 loopEnd := step_end ?st, isLooping := True\<rparr>"
  have "stored_ok (duration s) ?st"
    using assms by (simp add: player_inv_alt list_all_length)
  then have i1: "player_inv ?s1"
    using assms(1) by (simp add: player_inv_alt range_ok_def stored_ok_def)
  have t: "player_inv (togglePlayPause u)" if "player_inv u" for u
    using that by (simp add: togglePlayPause_def player_inv_alt range_ok_def)
  have "player_inv (state_of (handleSeek (step_start ?st) ?s1))"
    using i1 by (rule handleSeek_inv)
  then show ?thesis
    using t by (cases "handleSeek (step_start ?st) ?s1") (simp_all add: handlePlayStep_def Let_def)
qed

lemma delete_step_inv:
  assumes "player_inv s"
  shows "player_inv (handleDeleteStep i s)"
  using assms
  by (auto simp: handleDeleteStep_def Let_def player_inv_alt range_ok_def list_all_iff)

lemma rename_inv:
  assumes "player_inv s"
  shows "player_inv (snd (handleNameBlur st name s))"
proof -
  have "stored_ok d (x\<lparr>step_name := n\<rparr>) = stored_ok d x" for d n and x :: step
    by (simp add: stored_ok_def)
  then show ?thesis
    using assms
    by (auto simp: handleNameBlur_def handleUpdateStepName_def player_inv_alt range_ok_def
        list_all_iff)
qed

lemma load_steps_inv:
  assumes "player_inv s" "list_all (stored_ok (duration s)) importedSteps"
  shows "player_inv (handleLoadSteps clock importedSteps s)"
proof -
  have "list_all (stored_ok d)
          (map (\<lambda>(index, x). \<lparr>step_name = step_name x, step_start = step_start x,
                  step_end = step_end x, step_id = clock index @ ''-'' @ decimal index\<rparr>)
               (enumerate n xs))"
    if "list_all (stored_ok d) xs" for d n and xs :: "step_data list"
    using that by (induction xs arbitrary: n) (simp_all add: stored_ok_def)
  then show ?thesis
    using assms by (simp add: handleLoadSteps_def player_inv_alt range_ok_def)
qed

lemma mouse_move_inv:
  assumes "player_inv s"
  shows "player_inv (handleMouseMove r x s)"
proof -
  have p: "js_lt (Fin 0) (duration s)" using assms by (simp add: player_inv_alt range_ok_duration_pos)
  let ?g = "getSeekTime r (duration s) x"
  have g: "isNaN ?g \<or> (js_le (Fin 0) ?g \<and> js_le ?g (duration s))"
    using p by (rule getSeekTime_range)
  have a: "player_inv (s\<lparr>loopStart := ?g\<rparr>)" if "js_lt ?g (loopEnd s)"
    using that g assms by (cases ?g) (simp_all add: player_inv_alt range_ok_def)
  have b: "player_inv (s\<lparr>loopEnd := ?g\<rparr>)" if "js_lt (loopStart s) ?g"
    using that g assms by (cases ?g) (simp_all add: player_inv_alt range_ok_def)
  show ?thesis
    using a b assms handleSeek_inv [OF assms, of ?g]
    by (simp add: handleMouseMove_def Let_def js_gt_def)
qed

lemma handler_inv:
  assumes "player_inv s" "event_ok (duration s) e"
  shows "player_inv (handler e s)"
proof (cases e)
  case (LoadedMetadata d)
  then show ?thesis using assms by simp
next
  case (TimeUpdate d)
  then show ?thesis using assms time_update_inv by simp
next
  case ClickPlayPause
  then show ?thesis using assms by (simp add: togglePlayPause_def player_inv_alt range_ok_def)
next
  case ClickReset
  then show ?thesis using assms reset_inv by simp
next
  case ClickToggleLoop
  then show ?thesis using assms by (simp add: player_inv_alt range_ok_def)
next
  case ClickSetStart
  then show ?thesis using assms set_start_inv by simp
next
  case ClickSetEnd
  then show ?thesis using assms set_end_inv by simp
next
  case (ClickAddStep now)
  then show ?thesis using assms add_step_inv by simp
next
  case (ClickPlayStep k)
  then show ?thesis using assms play_step_inv by simp
next
  case (ClickDeleteStep k)
  then show ?thesis using assms delete_step_inv by simp
next
  case (NameBlur k name)
  then show ?thesis using assms rename_inv by simp
next
  case (LoadSteps clock importedSteps)
  then show ?thesis using assms load_steps_inv by simp
next
  case MouseDownPlayhead
  then show ?thesis using assms by (simp add: player_inv_alt range_ok_def)
next
  case MouseDownStart
  then show ?thesis using assms by (simp add: player_inv_alt range_ok_def)
next
  case MouseDownEnd
  then show ?thesis using assms by (simp add: player_inv_alt range_ok_def)
next
  case (MouseMove r x)
  then show ?thesis using assms mouse_move_inv by simp
next
  case MouseUp
  then show ?thesis using assms by (simp add: handleMouseUp_def player_inv_alt range_ok_def)
next
  case (TimelineClick r x)
  then show ?thesis using assms handleSeek_inv by (simp add: handleTimelineClick_def Let_def)
qed

lemma handler_duration:
  assumes "event_ok d e"
  shows "duration (handler e s) = duration s"
proof (cases e)
  case (LoadedMetadata x)
  then show ?thesis using assms by simp
next
  case (ClickPlayStep k)
  have "duration (handlePlayStep st s) = duration s" for st
    by (simp add: handlePlayStep_def handleSeek_def set_currentTime_def togglePlayPause_def Let_def
        split: jsnum.splits)
  then show ?thesis using ClickPlayStep by simp
next
  case (NameBlur k name)
  then show ?thesis by (simp add: handleNameBlur_def handleUpdateStepName_def)
qed (simp_all add: handleTimeUpdate_def togglePlayPause_def handleReset_def
      handleSetLoopStart_def handleSetLoopEnd_def handleAddStep_def handleDeleteStep_def
      handleLoadSteps_def handleMouseMove_def handleMouseUp_def handleTimelineClick_def
      handleSeek_duration Let_def)

lemma dispatch_inv:
  assumes "player_inv s" "event_ok (duration s) e"
  shows "player_inv (dispatch e s) \<and> duration (dispatch e s) = duration s"
proof -
  have "duration (runEffects s u) = duration u" for u
    by (simp add: runEffects_def syncActiveStep_def split: option.splits)
  then show ?thesis
    using handler_inv [OF assms] handler_duration [OF assms(2), of s] runEffects_inv
    by (simp add: dispatch_def)
qed

lemma run_inv:
  assumes "player_inv s" "list_all (event_ok (duration s)) es"
  shows "player_inv (run es s)"
  using assms
proof (induction es arbitrary: s)
  case Nil
  then show ?case by simp
next
  case (Cons e es)
  have d: "player_inv (dispatch e s) \<and> duration (dispatch e s) = duration s"
    using Cons.prems by (simp add: dispatch_inv)
  then have "list_all (event_ok (duration (dispatch e s))) es" using Cons.prems by simp
  with d have "player_inv (run es (dispatch e s))" using Cons.IH by blast
  then show ?case by simp
qed


lemma metadata_establishes_inv:
  assumes "0 < d"
  shows "player_inv (dispatch (LoadedMetadata (Fin d)) mountPlayer)"
  using assms
  by (simp add: dispatch_def runEffects_def syncActiveStep_def handleLoadedMetadata_def
      mountPlayer_eq player_inv_def range_ok_def js_le_def js_ge_def)

lemma metadata_establishes_inv_from:
  assumes "js_le (Fin 0) (loopStart s)" "js_lt (loopStart s) d"
    "pos_ok d (v_currentTime (video s))" "list_all (stored_ok d) (steps s)"
  shows "player_inv (dispatch (LoadedMetadata d) s)"
proof -
  have n: "\<not> isNaN d" using assms(2) by (cases d) simp_all
  then have "js_le d d" by (cases d) (simp_all add: js_le_def js_ge_def)
  then have "player_inv (handler (LoadedMetadata d) s)"
    using assms by (simp add: handleLoadedMetadata_def player_inv_alt range_ok_def)
  then show ?thesis unfolding dispatch_def by (rule runEffects_inv)
qed

text \<open>
  C1, as stated, fails in reachable states. A freshly mounted player, which is the state
  immediately after a source change, has \<open>loopStart = loopEnd = 0\<close>. \<open>handlePlayStep\<close>
  copies the stored range of a step without looking at it: an imported step over
  \<open>[5, 2]\<close>, once played, leaves \<open>loopStart = 5\<close> above \<open>loopEnd = 2\<close>. And a step over
  \<open>[2, 4]\<close> played before the metadata of a source of one second arrives leaves
  \<open>loopStart = 2\<close> above \<open>loopEnd = 1\<close>.
\<close>

theorem loop_range_counterexample:
  "\<not> range_ok mountPlayer
   \<and> \<not> range_ok (run [LoadedMetadata (Fin 10),
                       LoadSteps fixed_clock
                         [\<lparr>step_name = ascii ''X'', step_start = Fin 5, step_end = Fin 2\<rparr>],
                       ClickPlayStep 0] mountPlayer)
   \<and> \<not> range_ok (run [LoadSteps fixed_clock [step_A], ClickPlayStep 0, LoadedMetadata (Fin 1)]
                     mountPlayer)"
  by (simp add: mountPlayer_eq range_ok_def dispatch_def runEffects_def syncActiveStep_def
      handleLoadedMetadata_def handleLoadSteps_def handlePlayStep_def handleSeek_def
      set_currentTime_def togglePlayPause_def fixed_clock_def step_A_def Let_def decimal.simps
      digit_char_def)

text \<open>
  C1 (amended): immediately after a source change the range is \<open>(0, 0)\<close>. When the
  metadata of a source of duration \<open>d\<close> arrives in a state where \<open>0 \<le> loopStart < d\<close>, the
  playback position lies in \<open>[0, d]\<close> and every stored range satisfies
  \<open>0 \<le> start < end \<le> d\<close>, as in a freshly mounted player for \<open>d > 0\<close>, the resulting
  state satisfies \<open>0 \<le> loopStart < loopEnd \<le> duration\<close>, its duration is the one of the
  element, the playback position lies within the resource and every stored range is
  within the same bounds. From any state with these four properties every sequence of
  events of the player other than the arrival of metadata (set-start and set-end
  commands, samples of a drag on any handle, clicks on the track, playback that does not
  run backwards, adding, deleting, renaming and playing steps, imports of steps whose
  ranges satisfy the bounds) leads to a state that has them again; in particular the
  invariant holds after each sample of a drag.
\<close>

theorem loop_range_preserved:
  "loopStart mountPlayer = Fin 0 \<and> loopEnd mountPlayer = Fin 0
   \<and> (js_le (Fin 0) (loopStart s0) \<and> js_lt (loopStart s0) d
        \<and> pos_ok d (v_currentTime (video s0)) \<and> list_all (stored_ok d) (steps s0) \<longrightarrow>
        player_inv (dispatch (LoadedMetadata d) s0))
   \<and> (0 < x \<longrightarrow> player_inv (dispatch (LoadedMetadata (Fin x)) mountPlayer))
   \<and> (player_inv s \<longrightarrow> range_ok s)
   \<and> (player_inv s \<and> list_all (event_ok (duration s)) es \<longrightarrow>
        player_inv (run es s) \<and> range_ok (run es s))"
proof -
  have z: "loopStart mountPlayer = Fin 0 \<and> loopEnd mountPlayer = Fin 0"
    by (simp add: mountPlayer_eq)
  have g: "js_le (Fin 0) (loopStart s0) \<and> js_lt (loopStart s0) d
        \<and> pos_ok d (v_currentTime (video s0)) \<and> list_all (stored_ok d) (steps s0) \<longrightarrow>
        player_inv (dispatch (LoadedMetadata d) s0)"
    using metadata_establishes_inv_from by blast
  have a: "0 < x \<longrightarrow> player_inv (dispatch (LoadedMetadata (Fin x)) mountPlayer)"
    using metadata_establishes_inv by blast
  have b: "player_inv u \<longrightarrow> range_ok u" for u by (simp add: player_inv_def)
  have c: "player_inv s \<and> list_all (event_ok (duration s)) es \<longrightarrow> player_inv (run es s)"
    using run_inv by blast
  from z g a b [of s] b [of "run es s"] c show ?thesis by blast
qed

theorem loop_range_preserved_witness:
  "js_le (Fin 0) (loopStart mountPlayer) \<and> js_lt (loopStart mountPlayer) (Fin 10)
   \<and> pos_ok (Fin 10) (v_currentTime (video mountPlayer))
   \<and> list_all (stored_ok (Fin 10)) (steps mountPlayer)
   \<and> list_all (event_ok (Fin 10))
        [MouseDownStart, MouseMove track 120, MouseMove track 30, MouseUp, ClickAddStep ''t'',
         MouseDownEnd, MouseMove track 10, MouseMove track 70, MouseUp, ClickPlayStep 0,
         TimeUpdate 4]
   \<and> range_ok (run [MouseDownStart, MouseMove track 120, MouseMove track 30, MouseUp,
                    ClickAddStep ''t'', MouseDownEnd, MouseMove track 10, MouseMove track 70,
                    MouseUp, ClickPlayStep 0, TimeUpdate 4]
                   (dispatch (LoadedMetadata (Fin 10)) mountPlayer))"
proof -
  let ?s = "dispatch (LoadedMetadata (Fin 10)) mountPlayer"
  let ?es = "[MouseDownStart, MouseMove track 120, MouseMove track 30, MouseUp, ClickAddStep ''t'',
         MouseDownEnd, MouseMove track 10, MouseMove track 70, MouseUp, ClickPlayStep 0,
         TimeUpdate 4]"
  have d: "duration ?s = Fin 10"
    by (simp add: dispatch_def runEffects_def syncActiveStep_def handleLoadedMetadata_def
        mountPlayer_eq)
  have h: "js_le (Fin 0) (loopStart mountPlayer)" "js_lt (loopStart mountPlayer) (Fin 10)"
    "pos_ok (Fin 10) (v_currentTime (video mountPlayer))"
    "list_all (stored_ok (Fin 10)) (steps mountPlayer)"
    by (simp_all add: mountPlayer_eq js_le_def js_ge_def pos_ok_def)
  have i: "player_inv ?s"
    using loop_range_preserved [where ?s0.0 = mountPlayer and d = "Fin 10"] h by blast
  have e: "list_all (event_ok (Fin 10)) ?es" by simp
  have "range_ok (run ?es ?s)"
    using loop_range_preserved [where s = ?s and es = ?es] i e d by simp
  then show ?thesis using e h by simp
qed

section \<open>Steps that share an id\<close>

text \<open>
  Two steps added at the same timestamp have the same id (see the section on step
  identities). Whatever the code does by id then happens to both of them.
\<close>

lemma added_twice:
  "run add_twice_same_timestamp mountPlayer =
     \<lparr>video = \<lparr>v_currentTime = Fin 0, v_duration = Fin 10, v_paused = True, v_seeks = []\<rparr>,
      isPlaying = False, currentTime = Fin 0, duration = Fin 10, isLooping = False,
      loopStart = Fin 0, loopEnd = Fin 10,
      steps = [\<lparr>step_name = ascii ''Step 1'', step_start = Fin 0, step_end = Fin 10,
                 step_id = ''2026-01-01T00:00:00.000Z''\<rparr>,
               \<lparr>step_name = ascii ''Step 2'', step_start = Fin 0, step_end = Fin 10,
                 step_id = ''2026-01-01T00:00:00.000Z''\<rparr>],
      activeStepId = None, isDraggingPlayhead = False, isDraggingStart = False,
      isDraggingEnd = False\<rparr>"
  by (simp add: add_twice_same_timestamp_def mountPlayer_eq eval_defs handleAddStep_def ascii_def)

text \<open>
  C5 at two steps added in the same millisecond: the second one is played and the end
  handle is dragged to 6. The range of the first step, which was never played, changes
  from \<open>[0, 10]\<close> to \<open>[0, 6]\<close> along with that of the second.
\<close>

theorem same_timestamp_steps_mirrored_together:
  "stored_ranges (run add_twice_same_timestamp mountPlayer)
     = [(''2026-01-01T00:00:00.000Z'', Fin 0, Fin 10), (''2026-01-01T00:00:00.000Z'', Fin 0, Fin 10)]
   \<and> map step_name (steps (run add_twice_same_timestamp mountPlayer))
     = [ascii ''Step 1'', ascii ''Step 2'']
   \<and> stored_ranges (run (add_twice_same_timestamp
                            @ [ClickPlayStep 1, MouseDownEnd, MouseMove track 60, MouseUp])
                          mountPlayer)
     = [(''2026-01-01T00:00:00.000Z'', Fin 0, Fin 6), (''2026-01-01T00:00:00.000Z'', Fin 0, Fin 6)]"
  by (simp add: run_append added_twice stored_ranges_def eval_defs)

text \<open>
  C6 at two steps added in the same millisecond, none of them active: deleting the first
  one removes the second one too and leaves the list empty.
\<close>

theorem same_timestamp_steps_deleted_together:
  "map step_name (steps (run add_twice_same_timestamp mountPlayer))
     = [ascii ''Step 1'', ascii ''Step 2'']
   \<and> activeStepId (run add_twice_same_timestamp mountPlayer) = None
   \<and> steps (run (add_twice_same_timestamp @ [ClickDeleteStep 0]) mountPlayer) = []"
  by (simp add: run_append added_twice dispatch_def runEffects_def handleDeleteStep_def Let_def)

text \<open>
  C10 at two steps added in the same millisecond: committing the name "Spin" in the
  input of the first step renames the second step too.
\<close>

theorem same_timestamp_steps_renamed_together:
  "map step_name (steps (run add_twice_same_timestamp mountPlayer))
     = [ascii ''Step 1'', ascii ''Step 2'']
   \<and> map step_name (steps (run (add_twice_same_timestamp @ [NameBlur 0 (ascii ''Spin'')])
                               mountPlayer))
     = [ascii ''Spin'', ascii ''Spin'']"
proof -
  have "trim (ascii ''Spin'') \<noteq> []"
    by (simp add: trim_empty_iff is_whitespace_def ascii_def)
  then show ?thesis
    by (simp add: run_append added_twice dispatch_def runEffects_def handleNameBlur_def
        handleUpdateStepName_def)
qed

end
